theory Spec2Isabelle
  imports Main "HOL-Library.Multiset" "HOL-Library.AList"
begin

section \<open>Python values, errors and library functions used by nasa\_apod\_desktop.py\<close>

text \<open>
  Every \<^verbatim>\<open>raise\<close> and every \<^verbatim>\<open>exit()\<close> of the script is a value: a function that can
  fail returns \<open>error + 'a\<close>, with \<open>Inl\<close> the exception that leaves it. Console output
  (\<^verbatim>\<open>print\<close>, the \<^verbatim>\<open>SHOW_DEBUG\<close> flag that only guards it) is not modelled.
  Strings are lists of 8-bit characters, read as the code points 0 to 255; the script
  is read with Python 3 semantics (f-strings, \<^verbatim>\<open>enum\<close>).
\<close>

datatype error = SystemExit | TypeError | ValueError | URLError | IOError

text \<open>
  \<^verbatim>\<open>res_x\<close> and \<^verbatim>\<open>res_y\<close> of \<^verbatim>\<open>find_resolution\<close> hold the integer \<^verbatim>\<open>0\<close> at first and a
  regex group (a string) after a match, so they are values of either kind.
\<close>

datatype pyval = PInt int | PStr string

definition nl :: char where
  "nl = CHR 0x0A"

definition is_digit :: "char \<Rightarrow> bool" where
  "is_digit c \<longleftrightarrow> c \<in> set ''0123456789''"

definition is_space :: "char \<Rightarrow> bool" where
  "is_space c \<longleftrightarrow> c \<in> set [CHR '' '', CHR 0x09, CHR 0x0A, CHR 0x0B, CHR 0x0C, CHR 0x0D,
                             CHR 0x1C, CHR 0x1D, CHR 0x1E, CHR 0x1F, CHR 0x85, CHR 0xA0]"

definition digit_val :: "char \<Rightarrow> nat" where
  "digit_val c = of_char c - 48"

definition digits_val :: "string \<Rightarrow> nat" where
  "digits_val s = foldl (\<lambda>a c. 10 * a + digit_val c) 0 s"

text \<open>Decimal digits, a single underscore allowed between two of them (Python 3.6).\<close>

fun valid_digits :: "string \<Rightarrow> bool" where
  "valid_digits [] = False"
| "valid_digits [c] = is_digit c"
| "valid_digits (c # d # cs) =
     (is_digit c \<and> (if d = CHR ''_'' then valid_digits cs else valid_digits (d # cs)))"

definition strip :: "string \<Rightarrow> string" where
  "strip s = rev (dropWhile is_space (rev (dropWhile is_space s)))"

text \<open>\<^verbatim>\<open>int(s)\<close> on a string: \<open>None\<close> is the \<^verbatim>\<open>ValueError\<close>.\<close>

definition py_int :: "string \<Rightarrow> int option" where
  "py_int s =
     (let t = strip s;
          neg = (t \<noteq> [] \<and> hd t = CHR ''-'');
          u = (if t \<noteq> [] \<and> (hd t = CHR ''-'' \<or> hd t = CHR ''+'') then tl t else t)
      in if valid_digits u
         then Some ((if neg then -1 else 1) * int (digits_val (filter is_digit u)))
         else None)"

text \<open>\<^verbatim>\<open>int(v)\<close> on either kind of value.\<close>

fun int_of :: "pyval \<Rightarrow> int option" where
  "int_of (PInt n) = Some n"
| "int_of (PStr s) = py_int s"

text \<open>\<^verbatim>\<open>v == 0\<close>: a string is never equal to the integer \<^verbatim>\<open>0\<close>.\<close>

fun py_eq0 :: "pyval \<Rightarrow> bool" where
  "py_eq0 (PInt n) = (n = 0)"
| "py_eq0 (PStr s) = False"

definition starts_with :: "string \<Rightarrow> string \<Rightarrow> bool" where
  "starts_with p s \<longleftrightarrow> take (length p) s = p"

text \<open>\<^verbatim>\<open>p in s\<close> on strings.\<close>

fun contains :: "string \<Rightarrow> string \<Rightarrow> bool" where
  "contains p [] = (p = [])"
| "contains p (c # cs) = (starts_with p (c # cs) \<or> contains p cs)"

text \<open>The lines of a text: each ends at a newline, a last unterminated one counts.\<close>

fun lines_acc :: "string \<Rightarrow> string \<Rightarrow> string list" where
  "lines_acc acc [] = (if acc = [] then [] else [rev acc])"
| "lines_acc acc (c # cs) =
     (if c = nl then rev acc # lines_acc [] cs else lines_acc (c # acc) cs)"

definition split_lines :: "string \<Rightarrow> string list" where
  "split_lines s = lines_acc [] s"

text \<open>\<^verbatim>\<open>grep pat\<close> on the piped text: the lines that contain \<open>pat\<close>, each with its newline.\<close>

definition grep :: "string \<Rightarrow> string \<Rightarrow> string" where
  "grep pat s = concat (map (\<lambda>l. l @ [nl]) (filter (contains pat) (split_lines s)))"

section \<open>find\_resolution\<close>

datatype ResolutionTypes = RT_stretch | RT_largest | RT_default

text \<open>
  \<^verbatim>\<open>re.finditer(" connected ([0-9]+)x([0-9]+)+", output)\<close>. A match at the head of \<open>s\<close>:
  the literal, the longest run of digits (a shorter one is followed by a digit, not by
  \<^verbatim>\<open>x\<close>), \<^verbatim>\<open>x\<close>, and the longest run of digits again (the greedy group takes it whole in
  its first repetition). The result is group 1, group 2 and the text after the match.
\<close>

definition connected_at :: "string \<Rightarrow> (string \<times> string \<times> string) option" where
  "connected_at s =
     (if starts_with '' connected '' s then
        let r = drop 11 s; g1 = takeWhile is_digit r in
        (case dropWhile is_digit r of
           [] \<Rightarrow> None
         | c # r2 \<Rightarrow>
             if g1 \<noteq> [] \<and> c = CHR ''x'' \<and> takeWhile is_digit r2 \<noteq> []
             then Some (g1, takeWhile is_digit r2, dropWhile is_digit r2)
             else None)
      else None)"

text \<open>The matches from left to right, the scan resuming where a match ended.\<close>

function finditer_connected :: "string \<Rightarrow> (string \<times> string) list" where
  "finditer_connected [] = []"
| "finditer_connected (c # cs) =
     (case connected_at (c # cs) of
        Some (g1, g2, rest) \<Rightarrow> (g1, g2) # finditer_connected rest
      | None \<Rightarrow> finditer_connected cs)"
  by pat_completeness auto
termination
proof (relation "measure length")
  show "wf (measure length)" by simp
next
  fix c :: char and cs :: string
  show "(cs, c # cs) \<in> measure length" by simp
next
  fix c :: char and cs x2 g1 y g2 rest
  assume a: "connected_at (c # cs) = Some x2" "(g1, y) = x2" "(g2, rest) = y"
  then obtain d r2 where d: "dropWhile is_digit (drop 11 (c # cs)) = d # r2"
    and r: "rest = dropWhile is_digit r2"
    by (auto simp: connected_at_def Let_def split: if_splits list.splits)
  have "length rest \<le> length r2" using r by (simp add: length_dropWhile_le)
  moreover have "length (d # r2) \<le> length (drop 11 (c # cs))"
    using d length_dropWhile_le [of is_digit "drop 11 (c # cs)"] by simp
  ultimately show "(rest, c # cs) \<in> measure length" by simp
qed

text \<open>
  The loop of lines 143 to 147. \<^verbatim>\<open>largest\<close> is set to \<^verbatim>\<open>0\<close> before the loop and is
  not assigned in it.
\<close>

fun largest_loop ::
  "(string \<times> string) list \<Rightarrow> int \<Rightarrow> pyval \<times> pyval \<Rightarrow> error + (pyval \<times> pyval)" where
  "largest_loop [] largest res = Inr res"
| "largest_loop ((g1, g2) # ms) largest res =
     (case py_int g1 of
        None \<Rightarrow> Inl ValueError
      | Some a \<Rightarrow>
          (case py_int g2 of
             None \<Rightarrow> Inl ValueError
           | Some b \<Rightarrow>
               if a * b > largest then largest_loop ms largest (PStr g1, PStr g2)
               else largest_loop ms largest res))"

text \<open>
  \<^verbatim>\<open>re.search(".* current (.*?) x (.*?),.*", output)\<close>. \<^verbatim>\<open>.\<close> does not match a newline,
  so a match lies in one line. After \<^verbatim>\<open> current \<close> the lazy group 1 ends at the first
  \<^verbatim>\<open> x \<close> and the lazy group 2 at the first comma after it.
\<close>

fun split_first :: "string \<Rightarrow> string \<Rightarrow> (string \<times> string) option" where
  "split_first p [] = (if p = [] then Some ([], []) else None)"
| "split_first p (c # cs) =
     (if starts_with p (c # cs) then Some ([], drop (length p) (c # cs))
      else (case split_first p cs of
              None \<Rightarrow> None
            | Some (a, b) \<Rightarrow> Some (c # a, b)))"

definition groups_after :: "string \<Rightarrow> (string \<times> string) option" where
  "groups_after t =
     (case split_first '' x '' t of
        None \<Rightarrow> None
      | Some (g1, r) \<Rightarrow>
          (case split_first '','' r of
             None \<Rightarrow> None
           | Some (g2, r') \<Rightarrow> Some (g1, g2)))"

text \<open>
  Within a line the greedy \<^verbatim>\<open>.*\<close> in front gives up as little as it must: the match
  uses the last \<^verbatim>\<open> current \<close> of the line after which the rest of the pattern matches.
\<close>

fun current_in_line :: "string \<Rightarrow> (string \<times> string) option" where
  "current_in_line [] = None"
| "current_in_line (c # cs) =
     (case current_in_line cs of
        Some g \<Rightarrow> Some g
      | None \<Rightarrow>
          if starts_with '' current '' (c # cs) then groups_after (drop 9 (c # cs))
          else None)"

text \<open>\<^verbatim>\<open>re.search\<close> takes the leftmost start, so the first line that has a match.\<close>

fun first_match :: "('a \<Rightarrow> 'b option) \<Rightarrow> 'a list \<Rightarrow> 'b option" where
  "first_match f [] = None"
| "first_match f (x # xs) = (case f x of Some r \<Rightarrow> Some r | None \<Rightarrow> first_match f xs)"

definition search_current :: "string \<Rightarrow> (string \<times> string) option" where
  "search_current output = first_match current_in_line (split_lines output)"

text \<open>
  \<^verbatim>\<open>find_resolution(res_type, x, y)\<close>; \<open>xrandr\<close> is what the \<^verbatim>\<open>xrandr\<close> process prints,
  which the script pipes through \<^verbatim>\<open>grep\<close>.
\<close>

definition find_resolution ::
  "ResolutionTypes \<Rightarrow> int \<Rightarrow> int \<Rightarrow> string \<Rightarrow> error + (int \<times> int)" where
  "find_resolution res_type x y xrandr =
     (if res_type = RT_default then Inr (x, y)
      else
        let regex_search = (if res_type = RT_largest then ''connected'' else ''current'');
            output = grep regex_search xrandr;
            found =
              (if res_type = RT_largest
               then largest_loop (finditer_connected output) 0 (PInt 0, PInt 0)
               else (case search_current output of
                       Some (g1, g2) \<Rightarrow> Inr (PStr g1, PStr g2)
                     | None \<Rightarrow> Inr (PInt 0, PInt 0)))
        in case found of
             Inl e \<Rightarrow> Inl e
           | Inr (res_x, res_y) \<Rightarrow>
               let res = (if py_eq0 res_x \<or> py_eq0 res_y then (PInt x, PInt y)
                          else (res_x, res_y))
               in (case int_of (fst res) of
                     None \<Rightarrow> Inl ValueError
                   | Some a \<Rightarrow>
                       (case int_of (snd res) of
                          None \<Rightarrow> Inl ValueError
                        | Some b \<Rightarrow> Inr (a, b))))"

section \<open>The network, the files and the environment\<close>

text \<open>
  What the script reads from outside is a parameter of the model, the record \<open>world\<close>;
  what it changes is the record \<open>state\<close>, passed in and returned. A function with
  effects returns its result or its exception together with the state it leaves.
\<close>

datatype xml = Element (tag: string) (text_of: string) (children: "xml list")

datatype content = Picture int int | Markup xml | Junk

datatype fetch = Body string | HTTPError nat | Unreachable

datatype request = Get string | Open string | Retrieve string string

record world =
  xrandr :: string
  \<comment> \<open>the output of the \<^verbatim>\<open>xrandr\<close> process\<close>
  downloads_dir :: "string option"
  \<comment> \<open>\<^verbatim>\<open>glib.get_user_special_dir(glib.USER_DIRECTORY_DOWNLOAD)\<close>\<close>
  site :: "string \<Rightarrow> fetch"
  \<comment> \<open>\<^verbatim>\<open>opener.open(req)\<close> and \<^verbatim>\<open>response.read()\<close>: the body, an HTTP status error
      (\<^verbatim>\<open>urllib2.HTTPError\<close>) or a transport failure (\<^verbatim>\<open>urllib2.URLError\<close>)\<close>
  content_length :: "string \<Rightarrow> error + int"
  \<comment> \<open>\<^verbatim>\<open>float(urllib.urlopen(url).headers.get("content-length"))\<close>: the declared size,
      read as a whole number, or the exception of these two lines\<close>
  payload :: "string \<Rightarrow> error + content"
  \<comment> \<open>what \<^verbatim>\<open>urllib.urlretrieve\<close> stores for a URL, or the exception it raises\<close>
  strftime :: "nat \<Rightarrow> string"
  \<comment> \<open>\<^verbatim>\<open>(datetime.now() - timedelta(days=k)).strftime('%y%m%d')\<close>\<close>
  randbelow :: "nat \<Rightarrow> nat"
  \<comment> \<open>the number drawn by \<^verbatim>\<open>random.shuffle\<close> at index \<open>i\<close>, reduced below \<open>i + 1\<close>\<close>

record state =
  files :: "(string \<times> content) list"
  \<comment> \<open>the regular files, by path as written (paths are not normalised)\<close>
  requests :: "request list"
  \<comment> \<open>the network accesses made so far, oldest first\<close>
  wallpaper :: "string option"
  \<comment> \<open>the file last given to \<^verbatim>\<open>gsettings\<close>\<close>

definition isfile :: "state \<Rightarrow> string \<Rightarrow> bool" where
  "isfile s p \<longleftrightarrow> map_of (files s) p \<noteq> None"

definition dq :: char where
  "dq = CHR 0x22"

definition digit_chr :: "nat \<Rightarrow> char" where
  "digit_chr n = char_of (48 + n)"

text \<open>\<^verbatim>\<open>str(n)\<close> on integers.\<close>

fun str_nat :: "nat \<Rightarrow> string" where
  "str_nat n = (if n < 10 then [digit_chr n] else str_nat (n div 10) @ [digit_chr (n mod 10)])"

declare str_nat.simps [simp del]

definition str_int :: "int \<Rightarrow> string" where
  "str_int i = (if i < 0 then ''-'' @ str_nat (nat (- i)) else str_nat (nat i))"

text \<open>\<^verbatim>\<open>os.path.basename\<close>, \<^verbatim>\<open>os.path.splitext(p)[0]\<close> and \<^verbatim>\<open>os.path.join\<close> (POSIX).\<close>

definition basename :: "string \<Rightarrow> string" where
  "basename p = rev (takeWhile (\<lambda>c. c \<noteq> CHR ''/'') (rev p))"

definition splitext_root :: "string \<Rightarrow> string" where
  "splitext_root p =
     (let name = basename p;
          dir = take (length p - length name) p;
          rest = dropWhile (\<lambda>c. c \<noteq> CHR ''.'') (rev name)
      in case rest of
           [] \<Rightarrow> p
         | dot # ra \<Rightarrow> if list_ex (\<lambda>c. c \<noteq> CHR ''.'') ra then dir @ rev ra else p)"

definition path_join :: "string \<Rightarrow> string \<Rightarrow> string" where
  "path_join a b =
     (if starts_with ''/'' b then b
      else if a = [] \<or> last a = CHR ''/'' then a @ b
      else a @ ''/'' @ b)"

definition ends_with :: "string \<Rightarrow> string \<Rightarrow> bool" where
  "ends_with p s \<longleftrightarrow> starts_with (rev p) (rev s)"

text \<open>
  \<^verbatim>\<open>glob.glob(f"{DOWNLOAD_PATH}/*.png")\<close>: the files of that directory whose name ends in
  \<^verbatim>\<open>.png\<close> and does not start with a dot, in the order of the store.
\<close>

definition glob_png :: "string \<Rightarrow> state \<Rightarrow> string list" where
  "glob_png DOWNLOAD_PATH s =
     filter (\<lambda>p. starts_with (DOWNLOAD_PATH @ ''/'') p \<and>
                 (let name = drop (length DOWNLOAD_PATH + 1) p
                  in \<not> contains ''/'' name \<and> \<not> starts_with ''.'' name \<and> ends_with ''.png'' name))
            (map fst (files s))"

section \<open>download\_site\<close>

text \<open>Only \<^verbatim>\<open>urllib2.HTTPError\<close> is caught; any other exception of the fetch leaves the function.\<close>

definition download_site :: "world \<Rightarrow> string \<Rightarrow> state \<Rightarrow> (error + string) \<times> state" where
  "download_site w url s =
     (let s' = s\<lparr>requests := requests s @ [Get url]\<rparr>
      in case site w url of
           Body reply \<Rightarrow> (Inr reply, s')
         | HTTPError code \<Rightarrow> (Inr (''Error: '' @ str_nat code), s')
         | Unreachable \<Rightarrow> (Inl URLError, s'))"

section \<open>get\_image\_info\<close>

definition lower :: "char \<Rightarrow> char" where
  "lower c = (let n = (of_char c :: nat) in if 65 \<le> n \<and> n \<le> 90 then char_of (n + 32) else c)"

text \<open>
  \<^verbatim>\<open>re.search("<" + element + '="(image.*?)"', text, re.IGNORECASE)\<close>, for an \<open>element\<close>
  without regex operators (the callers pass \<^verbatim>\<open>a href\<close> and \<^verbatim>\<open>img src\<close>). A match at the
  head of \<open>s\<close>: the tag and the word \<^verbatim>\<open>image\<close> in any case, then the lazy \<^verbatim>\<open>.*?\<close> stops at
  the first double quote, which has to come before any newline. The result is group 1.
\<close>

definition open_tag :: "string \<Rightarrow> string" where
  "open_tag element = ''<'' @ element @ [CHR ''='', dq]"

definition image_at :: "string \<Rightarrow> string \<Rightarrow> string option" where
  "image_at element s =
     (let r = drop (length (open_tag element)) s;
          body = drop 5 r
      in if map lower (take (length (open_tag element)) s) = map lower (open_tag element) \<and>
            map lower (take 5 r) = ''image''
         then (case dropWhile (\<lambda>c. c \<noteq> dq \<and> c \<noteq> nl) body of
                 [] \<Rightarrow> None
               | c # rest \<Rightarrow>
                   if c = dq then Some (take 5 r @ takeWhile (\<lambda>c. c \<noteq> dq \<and> c \<noteq> nl) body)
                   else None)
         else None)"

fun search_image :: "string \<Rightarrow> string \<Rightarrow> string option" where
  "search_image element [] = None"
| "search_image element (c # cs) =
     (case image_at element (c # cs) of
        Some g \<Rightarrow> Some g
      | None \<Rightarrow> search_image element cs)"

text \<open>
  The triple \<^verbatim>\<open>(file_url, filename, file_size)\<close>, or \<open>None\<close> for \<^verbatim>\<open>(None, None, None)\<close>.
\<close>

definition get_image_info ::
  "world \<Rightarrow> string \<Rightarrow> string \<Rightarrow> string \<Rightarrow> state
     \<Rightarrow> (error + (string \<times> string \<times> int) option) \<times> state" where
  "get_image_info w element text NASA_APOD_SITE s =
     (case search_image element text of
        None \<Rightarrow> (Inr None, s)
      | Some g \<Rightarrow>
          let file_url = (if contains ''http'' g then g else NASA_APOD_SITE @ g);
              s' = s\<lparr>requests := requests s @ [Open file_url]\<rparr>;
              filename = basename file_url
          in (case content_length w file_url of
                Inl e \<Rightarrow> (Inl e, s')
              | Inr file_size \<Rightarrow> (Inr (Some (file_url, filename, file_size)), s')))"

section \<open>get\_image\<close>

definition urlretrieve :: "world \<Rightarrow> string \<Rightarrow> string \<Rightarrow> state \<Rightarrow> (error + unit) \<times> state" where
  "urlretrieve w url path s =
     (let s' = s\<lparr>requests := requests s @ [Retrieve url path]\<rparr>
      in case payload w url of
           Inl e \<Rightarrow> (Inl e, s')
         | Inr f \<Rightarrow> (Inr (), s'\<lparr>files := AList.update path f (files s')\<rparr>))"

definition get_image ::
  "world \<Rightarrow> string \<Rightarrow> string \<Rightarrow> string \<Rightarrow> state \<Rightarrow> (error + string option) \<times> state" where
  "get_image w text DOWNLOAD_PATH NASA_APOD_SITE s =
     (case get_image_info w ''a href'' text NASA_APOD_SITE s of
        (Inl e, s1) \<Rightarrow> (Inl e, s1)
      | (Inr None, s1) \<Rightarrow> (Inr None, s1)
      | (Inr (Some (file_url, filename, file_size)), s1) \<Rightarrow>
          let save_to = path_join DOWNLOAD_PATH (splitext_root filename @ ''.png'') in
          if \<not> isfile s1 save_to then
            (if file_size < 500 then
               (case get_image_info w ''img src'' text NASA_APOD_SITE s1 of
                  (Inl e, s2) \<Rightarrow> (Inl e, s2)
                | (Inr None, s2) \<Rightarrow> (Inr None, s2)
                | (Inr (Some (file_url2, filename2, file_size2)), s2) \<Rightarrow>
                    if file_size2 < 500 then (Inl SystemExit, s2)
                    else (case urlretrieve w file_url2 save_to s2 of
                            (Inl e, s3) \<Rightarrow> (Inl e, s3)
                          | (Inr u, s3) \<Rightarrow> (Inr (Some save_to), s3)))
             else (case urlretrieve w file_url save_to s1 of
                     (Inl e, s3) \<Rightarrow> (Inl e, s3)
                   | (Inr u, s3) \<Rightarrow> (Inr (Some save_to), s3)))
          else (Inr (Some save_to), s1))"

text \<open>
  A call of \<^verbatim>\<open>get_image\<close> with the positional arguments \<open>args\<close> (the optional
  \<^verbatim>\<open>SHOW_DEBUG\<close> apart). Python binds the arguments before the body runs: a call that
  leaves a parameter without a default unbound raises \<^verbatim>\<open>TypeError\<close>.
\<close>

definition get_image_call ::
  "world \<Rightarrow> string list \<Rightarrow> state \<Rightarrow> (error + string option) \<times> state" where
  "get_image_call w args s =
     (case args of
        [text, DOWNLOAD_PATH, NASA_APOD_SITE] \<Rightarrow> get_image w text DOWNLOAD_PATH NASA_APOD_SITE s
      | _ \<Rightarrow> (Inl TypeError, s))"

section \<open>resize\_image, set\_gnome\_wallpaper, set\_download\_folder\<close>

text \<open>\<^verbatim>\<open>Image.open\<close> fails on a path that holds no picture.\<close>

definition resize_image :: "string \<Rightarrow> int \<Rightarrow> int \<Rightarrow> state \<Rightarrow> (error + unit) \<times> state" where
  "resize_image filename RESOLUTION_X RESOLUTION_Y s =
     (case map_of (files s) filename of
        Some (Picture current_x current_y) \<Rightarrow>
          if (current_x, current_y) = (RESOLUTION_X, RESOLUTION_Y) then (Inr (), s)
          else (Inr (), s\<lparr>files := AList.update filename (Picture RESOLUTION_X RESOLUTION_Y) (files s)\<rparr>)
      | _ \<Rightarrow> (Inl IOError, s))"

definition set_gnome_wallpaper :: "string \<Rightarrow> state \<Rightarrow> state" where
  "set_gnome_wallpaper file_path s = s\<lparr>wallpaper := Some file_path\<rparr>"

definition set_download_folder :: "world \<Rightarrow> string \<Rightarrow> string \<Rightarrow> string" where
  "set_download_folder w CUSTOM_FOLDER DOWNLOAD_PATH =
     (case downloads_dir w of
        None \<Rightarrow> DOWNLOAD_PATH
      | Some d \<Rightarrow> if d = [] then DOWNLOAD_PATH else path_join d CUSTOM_FOLDER)"

section \<open>create\_desktop\_background\_scoll\<close>

text \<open>
  \<^verbatim>\<open>random.shuffle(images)\<close>: for \<open>i\<close> from the last index down to 1, exchange the
  entries at \<open>i\<close> and at a number drawn below \<open>i + 1\<close>.
\<close>

fun shuffle_loop :: "(nat \<Rightarrow> nat) \<Rightarrow> nat \<Rightarrow> 'a list \<Rightarrow> 'a list" where
  "shuffle_loop draw 0 xs = xs"
| "shuffle_loop draw (Suc i) xs =
     (let j = draw (Suc i) mod (Suc i + 1)
      in shuffle_loop draw i (xs[Suc i := xs ! j, j := xs ! Suc i]))"

definition shuffle :: "(nat \<Rightarrow> nat) \<Rightarrow> 'a list \<Rightarrow> 'a list" where
  "shuffle draw xs = shuffle_loop draw (length xs - 1) xs"

text \<open>
  The body of the loop of lines 376 to 406 at index \<open>i\<close>: the two elements appended to
  \<^verbatim>\<open>background\<close>, a \<^verbatim>\<open>static\<close> and a \<^verbatim>\<open>transition\<close>.
\<close>

definition slide :: "int \<Rightarrow> string list \<Rightarrow> nat \<Rightarrow> xml list" where
  "slide IMAGE_DURATION images i =
     [Element ''static'' []
        [Element ''duration'' (str_int IMAGE_DURATION) [],
         Element ''file'' (images ! i) []],
      Element ''transition'' []
        [Element ''duration'' ''5'' [],
         Element ''from'' (images ! i) [],
         Element ''to'' (if i + 1 = length images then images ! 0 else images ! (i + 1)) []]]"

definition background :: "int \<Rightarrow> string list \<Rightarrow> xml" where
  "background IMAGE_DURATION images =
     Element ''background'' []
       (concat (map (slide IMAGE_DURATION images) [0..<length images]))"

text \<open>
  The seed loop of lines 341 to 367, which need not end: \<open>None\<close> is a run that does not
  return. The result holds \<^verbatim>\<open>days_back\<close> and \<^verbatim>\<open>images\<close> as the loop leaves them.
  The call on line 357 passes one argument.
\<close>

partial_function (option) seed_loop ::
  "world \<Rightarrow> string \<Rightarrow> int \<Rightarrow> int \<Rightarrow> nat \<Rightarrow> int \<Rightarrow> string list \<Rightarrow> state
     \<Rightarrow> ((error + nat \<times> string list) \<times> state) option" where
  "seed_loop w NASA_APOD_SITE RESOLUTION_X RESOLUTION_Y days_back seed_images_left images s =
     (if seed_images_left > 0 then
        (case download_site w
                (NASA_APOD_SITE @ ''ap'' @ strftime w (days_back + 1) @ ''.html'') s of
           (Inl e, s1) \<Rightarrow> Some (Inl e, s1)
         | (Inr seed_site_contents, s1) \<Rightarrow>
             if seed_site_contents = ''error''
             then seed_loop w NASA_APOD_SITE RESOLUTION_X RESOLUTION_Y (days_back + 1)
                    seed_images_left images s1
             else
               (case get_image_call w [seed_site_contents] s1 of
                  (Inl e, s2) \<Rightarrow> Some (Inl e, s2)
                | (Inr None, s2) \<Rightarrow>
                    seed_loop w NASA_APOD_SITE RESOLUTION_X RESOLUTION_Y (days_back + 1)
                      seed_images_left images s2
                | (Inr (Some seed_filename), s2) \<Rightarrow>
                    (case resize_image seed_filename RESOLUTION_X RESOLUTION_Y s2 of
                       (Inl e, s3) \<Rightarrow> Some (Inl e, s3)
                     | (Inr u, s3) \<Rightarrow>
                         seed_loop w NASA_APOD_SITE RESOLUTION_X RESOLUTION_Y (days_back + 1)
                           (seed_images_left - 1) (images @ [seed_filename]) s3)))
      else Some (Inr (days_back, images), s))"

declare seed_loop.simps [code]

text \<open>The images of the playlist: the \<^verbatim>\<open>.png\<close> files found, and those the seed loop adds.\<close>

definition seed_images ::
  "world \<Rightarrow> string \<Rightarrow> int \<Rightarrow> string \<Rightarrow> int \<Rightarrow> int \<Rightarrow> state
     \<Rightarrow> ((error + string list) \<times> state) option" where
  "seed_images w DOWNLOAD_PATH SEED_IMAGES NASA_APOD_SITE RESOLUTION_X RESOLUTION_Y s =
     (let images = glob_png DOWNLOAD_PATH s;
          num_images = int (length images)
      in if num_images < SEED_IMAGES
         then (case seed_loop w NASA_APOD_SITE RESOLUTION_X RESOLUTION_Y 0 SEED_IMAGES images s of
                 None \<Rightarrow> None
               | Some (Inl e, s1) \<Rightarrow> Some (Inl e, s1)
               | Some (Inr (days_back, images1), s1) \<Rightarrow> Some (Inr images1, s1))
         else Some (Inr images, s))"

definition create_desktop_background_scoll ::
  "world \<Rightarrow> string option \<Rightarrow> bool \<Rightarrow> int \<Rightarrow> string \<Rightarrow> int \<Rightarrow> string \<Rightarrow> int \<Rightarrow> int \<Rightarrow> state
     \<Rightarrow> ((error + string option) \<times> state) option" where
  "create_desktop_background_scoll w filename IMAGE_SCROLL IMAGE_DURATION DOWNLOAD_PATH
       SEED_IMAGES NASA_APOD_SITE RESOLUTION_X RESOLUTION_Y s =
     (if \<not> IMAGE_SCROLL then Some (Inr filename, s)
      else
        (case seed_images w DOWNLOAD_PATH SEED_IMAGES NASA_APOD_SITE RESOLUTION_X RESOLUTION_Y s of
           None \<Rightarrow> None
         | Some (Inl e, s1) \<Rightarrow> Some (Inl e, s1)
         | Some (Inr images, s1) \<Rightarrow>
             let xml_file = DOWNLOAD_PATH @ ''/nasa_apod_desktop_backgrounds.xml'';
                 tree = background IMAGE_DURATION (shuffle (randbelow w) images)
             in Some (Inr (Some xml_file),
                      s1\<lparr>files := AList.update xml_file (Markup tree) (files s1)\<rparr>)))"

section \<open>main\<close>

record NASAADConfig =
  DOWNLOAD_PATH :: string
  CUSTOM_FOLDER :: string
  RESOLUTION_TYPE :: ResolutionTypes
  RESOLUTION_X :: int
  RESOLUTION_Y :: int
  NASA_APOD_SITE :: string
  IMAGE_SCROLL :: bool
  IMAGE_DURATION :: int
  SEED_IMAGES :: int

text \<open>
  The run of the script; directories are not in the store, so creating the download
  path leaves no trace. \<open>Inl SystemExit\<close> is a run ended by \<^verbatim>\<open>exit()\<close>.
\<close>

definition main :: "world \<Rightarrow> NASAADConfig \<Rightarrow> state \<Rightarrow> ((error + unit) \<times> state) option" where
  "main w opts s =
     (case find_resolution (RESOLUTION_TYPE opts) (RESOLUTION_X opts) (RESOLUTION_Y opts)
             (xrandr w) of
        Inl e \<Rightarrow> Some (Inl e, s)
      | Inr (res_x, res_y) \<Rightarrow>
          let path = set_download_folder w (CUSTOM_FOLDER opts) (DOWNLOAD_PATH opts) in
          (case download_site w (NASA_APOD_SITE opts) s of
             (Inl e, s1) \<Rightarrow> Some (Inl e, s1)
           | (Inr site_contents, s1) \<Rightarrow>
               if site_contents = ''error'' then Some (Inl SystemExit, s1)
               else
                 (case get_image_call w [site_contents, path, NASA_APOD_SITE opts] s1 of
                    (Inl e, s2) \<Rightarrow> Some (Inl e, s2)
                  | (Inr filename, s2) \<Rightarrow>
                      (case (case filename of
                               None \<Rightarrow> (Inr (), s2)
                             | Some f \<Rightarrow> resize_image f res_x res_y s2) of
                         (Inl e, s3) \<Rightarrow> Some (Inl e, s3)
                       | (Inr u, s3) \<Rightarrow>
                           (case create_desktop_background_scoll w filename (IMAGE_SCROLL opts)
                                   (IMAGE_DURATION opts) path (SEED_IMAGES opts)
                                   (NASA_APOD_SITE opts) res_x res_y s3 of
                              None \<Rightarrow> None
                            | Some (Inl e, s4) \<Rightarrow> Some (Inl e, s4)
                            | Some (Inr None, s4) \<Rightarrow> Some (Inl SystemExit, s4)
                            | Some (Inr (Some f), s4) \<Rightarrow>
                                Some (Inr (), set_gnome_wallpaper f s4))))))"

section \<open>The playlist read back\<close>

text \<open>
  The slides of a playlist document: each \<^verbatim>\<open>static\<close> element with the \<^verbatim>\<open>transition\<close>
  element after it is one entry (file, duration, transition duration, from, to). The
  chain of a playlist goes from an image to the \<^verbatim>\<open>to\<close> of the entry whose \<^verbatim>\<open>from\<close> it is.
\<close>

datatype slide_entry =
  SlideEntry (se_file: string) (se_duration: string) (se_transition: string)
    (se_from: string) (se_to: string)

definition entry_of :: "xml \<Rightarrow> xml \<Rightarrow> slide_entry option" where
  "entry_of st tr =
     (if tag st = ''static'' \<and> map tag (children st) = [''duration'', ''file''] \<and>
         tag tr = ''transition'' \<and> map tag (children tr) = [''duration'', ''from'', ''to'']
      then Some (SlideEntry (text_of (children st ! 1)) (text_of (children st ! 0))
                   (text_of (children tr ! 0)) (text_of (children tr ! 1))
                   (text_of (children tr ! 2)))
      else None)"

fun playlist_entries :: "xml list \<Rightarrow> slide_entry list" where
  "playlist_entries (st # tr # rest) =
     (case entry_of st tr of
        Some e \<Rightarrow> e # playlist_entries rest
      | None \<Rightarrow> playlist_entries rest)"
| "playlist_entries [x] = []"
| "playlist_entries [] = []"

definition playlist :: "xml \<Rightarrow> slide_entry list" where
  "playlist bg = (case bg of Element t x cs \<Rightarrow> playlist_entries cs)"

definition next_image :: "slide_entry list \<Rightarrow> string \<Rightarrow> string option" where
  "next_image pl f = map_of (map (\<lambda>e. (se_from e, se_to e)) pl) f"

fun follow :: "slide_entry list \<Rightarrow> string \<Rightarrow> nat \<Rightarrow> string option" where
  "follow pl f 0 = Some f"
| "follow pl f (Suc k) = (case follow pl f k of None \<Rightarrow> None | Some g \<Rightarrow> next_image pl g)"

text \<open>The entries written by lines 372 to 406 for the images found.\<close>

definition scroll_playlist :: "(nat \<Rightarrow> nat) \<Rightarrow> int \<Rightarrow> string list \<Rightarrow> slide_entry list" where
  "scroll_playlist draw D images = playlist (background D (shuffle draw images))"

section \<open>Counting downloads\<close>

text \<open>The downloads among the network accesses: the calls of \<^verbatim>\<open>urllib.urlretrieve\<close>.\<close>

fun is_retrieve :: "request \<Rightarrow> bool" where
  "is_retrieve (Retrieve url path) = True"
| "is_retrieve (Get url) = False"
| "is_retrieve (Open url) = False"

definition downloads :: "state \<Rightarrow> request list" where
  "downloads s = filter is_retrieve (requests s)"

section \<open>The pattern of get\_image\_info as a set of strings\<close>

text \<open>
  The strings that the pattern of \<^verbatim>\<open>get_image_info\<close> matches as a whole, with the text of
  group 1: the opening of the tag and the word \<^verbatim>\<open>image\<close> in any letter case, any
  characters but a newline, and a closing double quote.
\<close>

definition pattern_match :: "string \<Rightarrow> string \<Rightarrow> string \<Rightarrow> bool" where
  "pattern_match element m g \<longleftrightarrow>
     map lower (take (length (open_tag element)) m) = map lower (open_tag element) \<and>
     drop (length (open_tag element)) m = g @ [dq] \<and>
     map lower (take 5 g) = ''image'' \<and>
     nl \<notin> set (drop 5 g)"

section \<open>What the Largest loop holds\<close>



section \<open>Example inputs\<close>

text \<open>
  What \<^verbatim>\<open>xrandr\<close> prints for three connected outputs of 1920x1080, 2560x1440 and
  1280x720 and one that is not connected.
\<close>

definition xrandr_three :: string where
  "xrandr_three =
     ''Screen 0: minimum 320 x 200, current 5760 x 1440, maximum 16384 x 16384'' @ [nl] @
     ''HDMI-1 connected 1920x1080+0+0 (normal left inverted right x axis y axis) 527mm x 296mm'' @ [nl] @
     ''   1920x1080     60.00*+'' @ [nl] @
     ''DP-1 connected 2560x1440+1920+0 (normal left inverted right x axis y axis) 597mm x 336mm'' @ [nl] @
     ''DP-2 connected 1280x720+4480+0 (normal left inverted right x axis y axis) 310mm x 170mm'' @ [nl] @
     ''VGA-1 disconnected (normal left inverted right x axis y axis)'' @ [nl]"



text \<open>
  A site with a picture today, no picture (a video) one and two days back, and pictures
  three, four and five days back; every remote picture is large enough and can be
  retrieved.
\<close>

definition apod :: string where
  "apod = ''http://apod.nasa.gov/apod/''"

definition image_page :: "string \<Rightarrow> string" where
  "image_page n =
     ''<a href='' @ [dq] @ ''image/2301/'' @ n @ ''.jpg'' @ [dq] @ ''>'' @ [nl] @
     ''<IMG SRC='' @ [dq] @ ''image/2301/'' @ n @ ''_1024.jpg'' @ [dq] @ ''></a>''"

definition video_page :: string where
  "video_page = ''<iframe width='' @ [dq] @ ''960'' @ [dq] @ '' src='' @ [dq] @
     ''https://www.youtube.com/embed/abc'' @ [dq] @ ''></iframe>''"

definition dates :: "nat \<Rightarrow> string" where
  "dates k = (if 1 \<le> k \<and> k \<le> 5
              then [''230130'', ''230129'', ''230128'', ''230127'', ''230126''] ! (k - 1)
              else ''230101'')"

definition pages :: "string \<Rightarrow> fetch" where
  "pages url =
     (if url = apod then Body (image_page ''today'')
      else if url = apod @ ''ap230130.html'' then Body video_page
      else if url = apod @ ''ap230129.html'' then Body video_page
      else if url = apod @ ''ap230128.html'' then Body (image_page ''c'')
      else if url = apod @ ''ap230127.html'' then Body (image_page ''d'')
      else if url = apod @ ''ap230126.html'' then Body (image_page ''e'')
      else HTTPError 404)"

definition world_ok :: world where
  "world_ok = \<lparr>xrandr = xrandr_three, downloads_dir = None, site = pages,
      content_length = (\<lambda>url. Inr 250000), payload = (\<lambda>url. Inr (Picture 4000 3000)),
      strftime = dates, randbelow = (\<lambda>i. 0)\<rparr>"

definition empty_store :: state where
  "empty_store = \<lparr>files = [], requests = [], wallpaper = None\<rparr>"

definition config :: "bool \<Rightarrow> int \<Rightarrow> NASAADConfig" where
  "config scroll seed =
     \<lparr>DOWNLOAD_PATH = ''/tmp/backgrounds'', CUSTOM_FOLDER = ''nasa-apod-backgrounds'',
      RESOLUTION_TYPE = RT_default, RESOLUTION_X = 1024, RESOLUTION_Y = 768,
      NASA_APOD_SITE = apod, IMAGE_SCROLL = scroll, IMAGE_DURATION = 1200,
      SEED_IMAGES = seed\<rparr>"

text \<open>
  A page with an anchor and no \<^verbatim>\<open>img\<close> element, and a site on which every remote file
  declares 100 bytes.
\<close>

definition anchor_only :: string where
  "anchor_only = ''<a href='' @ [dq] @ ''image/2301/today.jpg'' @ [dq] @ ''>See Explanation.</a>''"

definition world_small :: world where
  "world_small = world_ok\<lparr>content_length := (\<lambda>url. Inr 100)\<rparr>"

definition store_of :: "string list \<Rightarrow> state" where
  "store_of names =
     \<lparr>files = map (\<lambda>n. (''/tmp/backgrounds/'' @ n, Picture 1024 768)) names,
      requests = [], wallpaper = None\<rparr>"

section \<open>Properties of find\_resolution\<close>

















section \<open>Properties of the seed walk\<close>

lemma get_image_call_one: "get_image_call w [doc] s = (Inl TypeError, s)"
  by (simp add: get_image_call_def)

lemma seed_loop_no_return:
  assumes "seed_loop w base X Y d left images s = Some (Inr r, s')"
  shows "left \<le> 0"
proof -
  have "\<forall>r s'. y = (Inr r, s') \<longrightarrow> left \<le> 0"
    if "seed_loop w base X Y d left images s = Some y" for y
    by (rule seed_loop.raw_induct
        [where P = "\<lambda>w base X Y d left images s y. \<forall>r s'. y = (Inr r, s') \<longrightarrow> left \<le> 0",
         OF _ that])
      (fastforce simp: get_image_call_one split: prod.splits sum.splits if_splits)
  with assms show ?thesis by blast
qed

text \<open>
  Claim C4. The seed walk is to start at yesterday, skip a failing day without using a
  seed credit and end when the credits are used up: with a target of 3, two days without
  an image and three with one are to give 3 new images after 5 days. The walk calls
  \<^verbatim>\<open>get_image(seed_site_contents)\<close> with one argument of the three the function
  requires: while credits are left, a day whose page is fetched (and is not the text
  \<^verbatim>\<open>error\<close>) ends the run with \<^verbatim>\<open>TypeError\<close>, whatever the page holds, with no image
  added.
\<close>

theorem seed_walk_raises_on_fetched_day:
  assumes "0 < left"
    and "download_site w (base @ ''ap'' @ strftime w (d + 1) @ ''.html'') s = (Inr contents, s1)"
    and "contents \<noteq> ''error''"
  shows "seed_loop w base X Y d left images s = Some (Inl TypeError, s1)"
  using assms by (subst seed_loop.simps) (simp add: get_image_call_one)

theorem seed_walk_raises_on_fetched_day_witness:
  "(0::int) < 3 \<and>
   download_site world_ok (apod @ ''ap'' @ strftime world_ok (0 + 1) @ ''.html'') empty_store =
     (Inr video_page, empty_store\<lparr>requests := [Get ''http://apod.nasa.gov/apod/ap230130.html'']\<rparr>) \<and>
   video_page \<noteq> ''error'' \<and>
   seed_loop world_ok apod 1024 768 0 3 [] empty_store =
     Some (Inl TypeError,
           empty_store\<lparr>requests := [Get ''http://apod.nasa.gov/apod/ap230130.html'']\<rparr>) \<and>
   main world_ok (config True 3) empty_store =
     Some (Inl TypeError,
       \<lparr>files = [(''/tmp/backgrounds/today.png'', Picture 1024 768)],
        requests =
          [Get ''http://apod.nasa.gov/apod/'',
           Open ''http://apod.nasa.gov/apod/image/2301/today.jpg'',
           Retrieve ''http://apod.nasa.gov/apod/image/2301/today.jpg''
             ''/tmp/backgrounds/today.png'',
           Get ''http://apod.nasa.gov/apod/ap230130.html''],
        wallpaper = None\<rparr>)"
proof -
  have p: "(0::int) < 3" by simp
  have d: "download_site world_ok (apod @ ''ap'' @ strftime world_ok (0 + 1) @ ''.html'') empty_store =
     (Inr video_page, empty_store\<lparr>requests := [Get ''http://apod.nasa.gov/apod/ap230130.html'']\<rparr>)"
    by code_simp
  have n: "video_page \<noteq> ''error''" by code_simp
  have m: "main world_ok (config True 3) empty_store =
     Some (Inl TypeError,
       \<lparr>files = [(''/tmp/backgrounds/today.png'', Picture 1024 768)],
        requests =
          [Get ''http://apod.nasa.gov/apod/'',
           Open ''http://apod.nasa.gov/apod/image/2301/today.jpg'',
           Retrieve ''http://apod.nasa.gov/apod/image/2301/today.jpg''
             ''/tmp/backgrounds/today.png'',
           Get ''http://apod.nasa.gov/apod/ap230130.html''],
        wallpaper = None\<rparr>)"
    by code_simp
  show ?thesis
    using p d n m seed_walk_raises_on_fetched_day [OF p d n, of 1024 768 "[]"]
    by (intro conjI)
qed

text \<open>
  Claim C10. Seeding is to run only when fewer \<^verbatim>\<open>.png\<close> files exist than
  \<^verbatim>\<open>SEED_IMAGES\<close>, and then to add \<^verbatim>\<open>SEED_IMAGES\<close> further images. The guard is as
  claimed: with enough files the images are the files found and nothing is fetched. But
  when seeding runs, the walk never hands back a list of images, whatever the site
  holds: it ends in an exception (the one-argument call of \<^verbatim>\<open>get_image\<close>, or a transport
  failure) or does not end.
\<close>

theorem seeding_runs_below_target_and_never_returns:
  "(int (length (glob_png dp s)) < seed \<longrightarrow>
      (\<forall>images s'. seed_images w dp seed base X Y s \<noteq> Some (Inr images, s'))) \<and>
   (\<not> int (length (glob_png dp s)) < seed \<longrightarrow>
      seed_images w dp seed base X Y s = Some (Inr (glob_png dp s), s))"
proof (intro conjI impI allI)
  fix images s'
  assume below: "int (length (glob_png dp s)) < seed"
  then have pos: "0 < seed" by linarith
  show "seed_images w dp seed base X Y s \<noteq> Some (Inr images, s')"
  proof
    assume "seed_images w dp seed base X Y s = Some (Inr images, s')"
    then obtain d where "seed_loop w base X Y 0 seed (glob_png dp s) s = Some (Inr (d, images), s')"
      using below by (auto simp: seed_images_def Let_def split: option.splits sum.splits prod.splits)
    then have "seed \<le> 0" by (rule seed_loop_no_return)
    with pos show False by simp
  qed
next
  assume "\<not> int (length (glob_png dp s)) < seed"
  then show "seed_images w dp seed base X Y s = Some (Inr (glob_png dp s), s)"
    by (simp add: seed_images_def Let_def)
qed

theorem seeding_runs_below_target_witness:
  "int (length (glob_png ''/tmp/backgrounds'' (store_of [''a.png'', ''b.png'']))) < 3 \<and>
   (\<forall>images s'. seed_images world_ok ''/tmp/backgrounds'' 3 apod 1024 768
        (store_of [''a.png'', ''b.png'']) \<noteq> Some (Inr images, s')) \<and>
   seed_images world_ok ''/tmp/backgrounds'' 3 apod 1024 768 (store_of [''a.png'', ''b.png'']) =
     Some (Inl TypeError,
           store_of [''a.png'', ''b.png'']
             \<lparr>requests := [Get ''http://apod.nasa.gov/apod/ap230130.html'']\<rparr>) \<and>
   \<not> int (length (glob_png ''/tmp/backgrounds'' (store_of [''a.png'', ''b.png'', ''c.png'']))) < 3 \<and>
   seed_images world_ok ''/tmp/backgrounds'' 3 apod 1024 768
        (store_of [''a.png'', ''b.png'', ''c.png'']) =
     Some (Inr [''/tmp/backgrounds/a.png'', ''/tmp/backgrounds/b.png'', ''/tmp/backgrounds/c.png''],
           store_of [''a.png'', ''b.png'', ''c.png''])"
proof -
  have two: "int (length (glob_png ''/tmp/backgrounds'' (store_of [''a.png'', ''b.png'']))) < 3"
    by code_simp
  have three:
    "\<not> int (length (glob_png ''/tmp/backgrounds'' (store_of [''a.png'', ''b.png'', ''c.png'']))) < 3"
    by code_simp
  have g: "glob_png ''/tmp/backgrounds'' (store_of [''a.png'', ''b.png'', ''c.png'']) =
      [''/tmp/backgrounds/a.png'', ''/tmp/backgrounds/b.png'', ''/tmp/backgrounds/c.png'']"
    by code_simp
  have e: "seed_images world_ok ''/tmp/backgrounds'' 3 apod 1024 768 (store_of [''a.png'', ''b.png'']) =
     Some (Inl TypeError,
           store_of [''a.png'', ''b.png'']
             \<lparr>requests := [Get ''http://apod.nasa.gov/apod/ap230130.html'']\<rparr>)"
    by code_simp
  show ?thesis
    using two three g e
      seeding_runs_below_target_and_never_returns
        [of "''/tmp/backgrounds''" "store_of [''a.png'', ''b.png'']" 3 world_ok apod 1024 768]
      seeding_runs_below_target_and_never_returns
        [of "''/tmp/backgrounds''" "store_of [''a.png'', ''b.png'', ''c.png'']" 3 world_ok apod 1024 768]
    by simp
qed

section \<open>Properties of download\_site and its callers\<close>

lemma lower_less_than: "lower c = CHR ''<'' \<Longrightarrow> c = CHR ''<''"
proof -
  assume a: "lower c = CHR ''<''"
  show ?thesis
  proof (cases "65 \<le> (of_char c :: nat) \<and> (of_char c :: nat) \<le> 90")
    case False
    then show ?thesis using a by (auto simp: lower_def Let_def)
  next
    case True
    then have "lower c = char_of ((of_char c :: nat) + 32)" by (simp add: lower_def Let_def)
    then have "(of_char (lower c) :: nat) = ((of_char c :: nat) + 32) mod 256"
      by (simp add: of_char_of)
    moreover have "((of_char c :: nat) + 32) mod 256 = (of_char c :: nat) + 32"
      using True by simp
    ultimately have "(of_char (lower c) :: nat) \<noteq> 60" using True by simp
    then show ?thesis using a by simp
  qed
qed

lemma image_at_head:
  assumes "image_at element s = Some g"
  shows "\<exists>t. s = CHR ''<'' # t"
proof -
  have m: "map lower (take (length (open_tag element)) s) = map lower (open_tag element)"
    using assms by (simp add: image_at_def Let_def split: if_splits)
  have "open_tag element = CHR ''<'' # (element @ [CHR ''='', dq])" by (simp add: open_tag_def)
  then obtain c t where "take (length (open_tag element)) s = c # t" "lower c = lower (CHR ''<'')"
    using m by (cases "take (length (open_tag element)) s") auto
  moreover have "lower (CHR ''<'') = CHR ''<''" by (simp add: lower_def)
  ultimately have "take (length (open_tag element)) s = CHR ''<'' # t"
    using lower_less_than by simp
  moreover obtain n where "length (open_tag element) = Suc n"
    by (simp add: open_tag_def)
  ultimately show ?thesis by (cases s) auto
qed

lemma search_image_without_tag:
  "CHR ''<'' \<notin> set doc \<Longrightarrow> search_image element doc = None"
proof (induction doc)
  case Nil
  then show ?case by simp
next
  case (Cons c cs)
  have "image_at element (c # cs) = None"
  proof (cases "image_at element (c # cs)")
    case None then show ?thesis .
  next
    case (Some g)
    then show ?thesis using image_at_head [OF Some] Cons.prems by auto
  qed
  then show ?case using Cons by simp
qed

lemma digit_chr_not_tag: "k < 10 \<Longrightarrow> digit_chr k \<noteq> CHR ''<''"
proof
  assume k: "k < 10" and e: "digit_chr k = CHR ''<''"
  have "(of_char (digit_chr k) :: nat) = (48 + k) mod 256"
    by (simp add: digit_chr_def of_char_of)
  then have "(of_char (digit_chr k) :: nat) = 48 + k" using k by simp
  then show False using e k by simp
qed

lemma str_nat_no_tag: "CHR ''<'' \<notin> set (str_nat n)"
proof (induction n rule: str_nat.induct)
  case (1 n)
  show ?case
  proof (cases "n < 10")
    case True
    then show ?thesis using digit_chr_not_tag [of n]
      by (subst str_nat.simps) auto
  next
    case False
    have "n mod 10 < 10" by simp
    then show ?thesis using "1.IH" False digit_chr_not_tag [of "n mod 10"]
      by (subst str_nat.simps) auto
  qed
qed

lemma error_text_has_no_image:
  "search_image element (''Error: '' @ str_nat code) = None"
  by (rule search_image_without_tag) (simp add: str_nat_no_tag)

text \<open>
  Claim C6. A failed fetch is to come back from \<^verbatim>\<open>download_site\<close> as a failure that the
  callers recognise, ending the run for today's page. An HTTP status error comes back
  as the text \<^verbatim>\<open>Error: \<close> followed by the status, which \<^verbatim>\<open>main\<close> compares with
  \<^verbatim>\<open>error\<close>: the two are never equal, so the run goes on as for a page without an image,
  into the playlist stage. (A transport failure is not caught in \<^verbatim>\<open>download_site\<close> and
  leaves it as an exception.)
\<close>

theorem http_error_is_not_recognised:
  assumes "site w (NASA_APOD_SITE opts) = HTTPError code"
    and "find_resolution (RESOLUTION_TYPE opts) (RESOLUTION_X opts) (RESOLUTION_Y opts)
           (xrandr w) = Inr (x, y)"
  shows "download_site w (NASA_APOD_SITE opts) s =
           (Inr (''Error: '' @ str_nat code),
            s\<lparr>requests := requests s @ [Get (NASA_APOD_SITE opts)]\<rparr>) \<and>
         ''Error: '' @ str_nat code \<noteq> ''error'' \<and>
         main w opts s =
           (case create_desktop_background_scoll w None (IMAGE_SCROLL opts) (IMAGE_DURATION opts)
                   (set_download_folder w (CUSTOM_FOLDER opts) (DOWNLOAD_PATH opts))
                   (SEED_IMAGES opts) (NASA_APOD_SITE opts) x y
                   (s\<lparr>requests := requests s @ [Get (NASA_APOD_SITE opts)]\<rparr>) of
              None \<Rightarrow> None
            | Some (Inl e, s4) \<Rightarrow> Some (Inl e, s4)
            | Some (Inr None, s4) \<Rightarrow> Some (Inl SystemExit, s4)
            | Some (Inr (Some f), s4) \<Rightarrow> Some (Inr (), set_gnome_wallpaper f s4))"
proof -
  let ?s1 = "s\<lparr>requests := requests s @ [Get (NASA_APOD_SITE opts)]\<rparr>"
  have d: "download_site w (NASA_APOD_SITE opts) s = (Inr (''Error: '' @ str_nat code), ?s1)"
    using assms(1) by (simp add: download_site_def Let_def)
  have ne: "''Error: '' @ str_nat code \<noteq> ''error''" by simp
  have gi: "get_image_info w ''a href'' (''Error: '' @ str_nat code) (NASA_APOD_SITE opts) ?s1 =
      (Inr None, ?s1)"
    unfolding get_image_info_def error_text_has_no_image by simp
  have gm: "get_image w (''Error: '' @ str_nat code)
      (set_download_folder w (CUSTOM_FOLDER opts) (DOWNLOAD_PATH opts)) (NASA_APOD_SITE opts) ?s1 =
      (Inr None, ?s1)"
    unfolding get_image_def gi by simp
  have g: "get_image_call w [''Error: '' @ str_nat code,
             set_download_folder w (CUSTOM_FOLDER opts) (DOWNLOAD_PATH opts), NASA_APOD_SITE opts] ?s1 =
           (Inr None, ?s1)"
    unfolding get_image_call_def using gm by simp
  have "main w opts s =
           (case create_desktop_background_scoll w None (IMAGE_SCROLL opts) (IMAGE_DURATION opts)
                   (set_download_folder w (CUSTOM_FOLDER opts) (DOWNLOAD_PATH opts))
                   (SEED_IMAGES opts) (NASA_APOD_SITE opts) x y ?s1 of
              None \<Rightarrow> None
            | Some (Inl e, s4) \<Rightarrow> Some (Inl e, s4)
            | Some (Inr None, s4) \<Rightarrow> Some (Inl SystemExit, s4)
            | Some (Inr (Some f), s4) \<Rightarrow> Some (Inr (), set_gnome_wallpaper f s4))"
    unfolding main_def assms(2) d using ne g by (simp add: Let_def)
  then show ?thesis using d ne by (intro conjI)
qed

theorem http_error_is_not_recognised_witness:
  "site (world_ok\<lparr>site := (\<lambda>url. HTTPError 404)\<rparr>) (NASA_APOD_SITE (config True 0)) = HTTPError 404 \<and>
   download_site (world_ok\<lparr>site := (\<lambda>url. HTTPError 404)\<rparr>) apod empty_store =
     (Inr ''Error: 404'', empty_store\<lparr>requests := [Get apod]\<rparr>) \<and>
   main (world_ok\<lparr>site := (\<lambda>url. HTTPError 404)\<rparr>) (config True 0) empty_store =
     Some (Inr (),
       \<lparr>files = [(''/tmp/backgrounds/nasa_apod_desktop_backgrounds.xml'',
                  Markup (Element ''background'' [] []))],
        requests = [Get ''http://apod.nasa.gov/apod/''],
        wallpaper = Some ''/tmp/backgrounds/nasa_apod_desktop_backgrounds.xml''\<rparr>) \<and>
   download_site (world_ok\<lparr>site := (\<lambda>url. Unreachable)\<rparr>) apod empty_store =
     (Inl URLError, empty_store\<lparr>requests := [Get apod]\<rparr>)"
proof -
  let ?w = "world_ok\<lparr>site := (\<lambda>url. HTTPError 404)\<rparr>"
  have a: "site ?w (NASA_APOD_SITE (config True 0)) = HTTPError 404" by simp
  have r: "find_resolution (RESOLUTION_TYPE (config True 0)) (RESOLUTION_X (config True 0))
      (RESOLUTION_Y (config True 0)) (xrandr ?w) = Inr (1024, 768)"
    by (simp add: config_def find_resolution_def)
  note t = http_error_is_not_recognised [OF a r, of empty_store]
  have n: "NASA_APOD_SITE (config True 0) = apod" by (simp add: config_def)
  have e: "str_nat 404 = ''404''" by code_simp
  have d: "download_site ?w apod empty_store =
     (Inr ''Error: 404'', empty_store\<lparr>requests := [Get apod]\<rparr>)"
    using t [THEN conjunct1] by (simp add: n e empty_store_def)
  have c: "create_desktop_background_scoll ?w None (IMAGE_SCROLL (config True 0))
      (IMAGE_DURATION (config True 0))
      (set_download_folder ?w (CUSTOM_FOLDER (config True 0)) (DOWNLOAD_PATH (config True 0)))
      (SEED_IMAGES (config True 0)) (NASA_APOD_SITE (config True 0)) 1024 768
      (empty_store\<lparr>requests := requests empty_store @ [Get (NASA_APOD_SITE (config True 0))]\<rparr>) =
    Some (Inr (Some ''/tmp/backgrounds/nasa_apod_desktop_backgrounds.xml''),
       \<lparr>files = [(''/tmp/backgrounds/nasa_apod_desktop_backgrounds.xml'',
                  Markup (Element ''background'' [] []))],
        requests = [Get ''http://apod.nasa.gov/apod/''],
        wallpaper = None\<rparr>)"
    by code_simp
  have m: "main ?w (config True 0) empty_store =
     Some (Inr (),
       \<lparr>files = [(''/tmp/backgrounds/nasa_apod_desktop_backgrounds.xml'',
                  Markup (Element ''background'' [] []))],
        requests = [Get ''http://apod.nasa.gov/apod/''],
        wallpaper = Some ''/tmp/backgrounds/nasa_apod_desktop_backgrounds.xml''\<rparr>)"
    using t [THEN conjunct2, THEN conjunct2] unfolding c
    by (simp add: set_gnome_wallpaper_def)
  have u: "download_site (world_ok\<lparr>site := (\<lambda>url. Unreachable)\<rparr>) apod empty_store =
     (Inl URLError, empty_store\<lparr>requests := [Get apod]\<rparr>)"
    by code_simp
  show ?thesis using a d m u by (intro conjI)
qed

section \<open>Properties of get\_image\_info and get\_image\<close>

lemma search_image_None_iff:
  "search_image element doc = None \<longleftrightarrow> (\<forall>i. image_at element (drop i doc) = None)"
proof (induction doc)
  case Nil
  show ?case by (simp add: image_at_def open_tag_def Let_def)
next
  case (Cons c cs)
  show ?case
  proof
    assume a: "search_image element (c # cs) = None"
    then have h: "image_at element (c # cs) = None" and t: "search_image element cs = None"
      by (auto split: option.splits)
    show "\<forall>i. image_at element (drop i (c # cs)) = None"
    proof
      fix i show "image_at element (drop i (c # cs)) = None"
        using h t Cons.IH by (cases i) auto
    qed
  next
    assume a: "\<forall>i. image_at element (drop i (c # cs)) = None"
    then have "image_at element (c # cs) = None" by (metis drop0)
    moreover have "\<forall>i. image_at element (drop i cs) = None"
      using a by (metis drop_Suc_Cons)
    ultimately show "search_image element (c # cs) = None"
      using Cons.IH by simp
  qed
qed

lemma isfile_requests [simp]: "isfile (s\<lparr>requests := r\<rparr>) p = isfile s p"
  by (simp add: isfile_def)

lemma get_image_info_deterministic:
  assumes "get_image_info w element doc base s = (Inr (Some (url, fname, n)), s')"
  shows "get_image_info w element doc base t =
           (Inr (Some (url, fname, n)), t\<lparr>requests := requests t @ [Open url]\<rparr>) \<and>
         s' = s\<lparr>requests := requests s @ [Open url]\<rparr>"
proof -
  from assms obtain g where g: "search_image element doc = Some g"
    by (auto simp: get_image_info_def split: option.splits)
  define u where "u = (if contains ''http'' g then g else base @ g)"
  have e: "get_image_info w element doc base t =
      (case content_length w u of
         Inl e \<Rightarrow> (Inl e, t\<lparr>requests := requests t @ [Open u]\<rparr>)
       | Inr n \<Rightarrow> (Inr (Some (u, basename u, n)), t\<lparr>requests := requests t @ [Open u]\<rparr>))" for t
    unfolding u_def get_image_info_def g Let_def by simp
  from assms e [of s] have "content_length w u = Inr n \<and> url = u \<and> fname = basename u \<and>
      s' = s\<lparr>requests := requests s @ [Open u]\<rparr>"
    by (auto split: sum.splits)
  then show ?thesis using e [of t] by simp
qed

lemma urlretrieve_ok:
  assumes "urlretrieve w url path s = (Inr u, s')"
  shows "isfile s' path \<and> requests s' = requests s @ [Retrieve url path]"
  using assms
  by (auto simp: urlretrieve_def Let_def isfile_def update_conv' split: sum.splits)

text \<open>
  Claim C2, as amended. When the file is not there yet and the size found through the
  anchor is below 500 bytes, \<^verbatim>\<open>get_image\<close> runs the locate step once more, with
  \<^verbatim>\<open>img src\<close>. If that finds no image the result is \<^verbatim>\<open>None\<close> and no file is written; if
  it finds one that is below 500 bytes too, \<^verbatim>\<open>get_image\<close> calls \<^verbatim>\<open>exit()\<close>, again with
  no file written; if it finds a larger one, that URL is retrieved into the path named
  after the anchor's file.
\<close>

theorem small_image_retries_once:
  assumes "get_image_info w ''a href'' doc base s = (Inr (Some (url, fname, n)), s1)"
    and "n < 500"
    and "\<not> isfile s (path_join dp (splitext_root fname @ ''.png''))"
  shows "(\<forall>s2. get_image_info w ''img src'' doc base s1 = (Inr None, s2) \<longrightarrow>
            get_image w doc dp base s = (Inr None, s1) \<and> files s1 = files s \<and>
            requests s1 = requests s @ [Open url]) \<and>
         (\<forall>url2 fname2 n2 s2.
            get_image_info w ''img src'' doc base s1 = (Inr (Some (url2, fname2, n2)), s2) \<and>
            n2 < 500 \<longrightarrow>
            get_image w doc dp base s = (Inl SystemExit, s2) \<and> files s2 = files s \<and>
            requests s2 = requests s @ [Open url, Open url2]) \<and>
         (\<forall>url2 fname2 n2 s2.
            get_image_info w ''img src'' doc base s1 = (Inr (Some (url2, fname2, n2)), s2) \<and>
            500 \<le> n2 \<longrightarrow>
            get_image w doc dp base s =
              (case urlretrieve w url2 (path_join dp (splitext_root fname @ ''.png'')) s2 of
                 (Inl e, s3) \<Rightarrow> (Inl e, s3)
               | (Inr u, s3) \<Rightarrow> (Inr (Some (path_join dp (splitext_root fname @ ''.png''))), s3)))"
proof -
  have s1: "s1 = s\<lparr>requests := requests s @ [Open url]\<rparr>"
    using get_image_info_deterministic [OF assms(1)] by simp
  have nf: "\<not> isfile s1 (path_join dp (splitext_root fname @ ''.png''))"
    using assms(3) s1 by simp
  have c1: "get_image w doc dp base s = (Inr None, s1) \<and> files s1 = files s \<and>
            requests s1 = requests s @ [Open url]"
    if "get_image_info w ''img src'' doc base s1 = (Inr None, s2)" for s2
  proof -
    have "s2 = s1" using that
      by (auto simp: get_image_info_def Let_def split: option.splits sum.splits)
    then show ?thesis
      using assms(1,2) nf that s1 by (simp add: get_image_def)
  qed
  have c2: "get_image w doc dp base s = (Inl SystemExit, s2) \<and> files s2 = files s \<and>
            requests s2 = requests s @ [Open url, Open url2]"
    if "get_image_info w ''img src'' doc base s1 = (Inr (Some (url2, fname2, n2)), s2)" "n2 < 500"
    for url2 fname2 n2 s2
  proof -
    have "s2 = s1\<lparr>requests := requests s1 @ [Open url2]\<rparr>"
      using get_image_info_deterministic [OF that(1)] by simp
    then show ?thesis
      using assms(1,2) nf that s1 by (simp add: get_image_def)
  qed
  have c3: "get_image w doc dp base s =
              (case urlretrieve w url2 (path_join dp (splitext_root fname @ ''.png'')) s2 of
                 (Inl e, s3) \<Rightarrow> (Inl e, s3)
               | (Inr u, s3) \<Rightarrow> (Inr (Some (path_join dp (splitext_root fname @ ''.png''))), s3))"
    if "get_image_info w ''img src'' doc base s1 = (Inr (Some (url2, fname2, n2)), s2)" "500 \<le> n2"
    for url2 fname2 n2 s2
    using assms(1,2) nf that by (simp add: get_image_def Let_def)
  show ?thesis using c1 c2 c3 by blast
qed

theorem small_image_retries_once_witness:
  "get_image_info world_small ''a href'' (image_page ''today'') apod empty_store =
     (Inr (Some (''http://apod.nasa.gov/apod/image/2301/today.jpg'', ''today.jpg'', 100)),
      empty_store\<lparr>requests := [Open ''http://apod.nasa.gov/apod/image/2301/today.jpg'']\<rparr>) \<and>
   (100::int) < 500 \<and>
   \<not> isfile empty_store (path_join ''/tmp/backgrounds'' (splitext_root ''today.jpg'' @ ''.png'')) \<and>
   get_image world_small (image_page ''today'') ''/tmp/backgrounds'' apod empty_store =
     (Inl SystemExit,
      empty_store\<lparr>requests := [Open ''http://apod.nasa.gov/apod/image/2301/today.jpg'',
                                 Open ''http://apod.nasa.gov/apod/image/2301/today_1024.jpg'']\<rparr>) \<and>
   get_image world_small anchor_only ''/tmp/backgrounds'' apod empty_store =
     (Inr None,
      empty_store\<lparr>requests := [Open ''http://apod.nasa.gov/apod/image/2301/today.jpg'']\<rparr>)"
proof -
  let ?u = "''http://apod.nasa.gov/apod/image/2301/today.jpg''"
  let ?u2 = "''http://apod.nasa.gov/apod/image/2301/today_1024.jpg''"
  let ?s1 = "empty_store\<lparr>requests := [Open ?u]\<rparr>"
  let ?s2 = "empty_store\<lparr>requests := [Open ?u, Open ?u2]\<rparr>"
  have e1: "get_image_info world_small ''a href'' (image_page ''today'') apod empty_store =
      (Inr (Some (?u, ''today.jpg'', 100)), ?s1)"
    by code_simp
  have e2: "get_image_info world_small ''img src'' (image_page ''today'') apod ?s1 =
      (Inr (Some (?u2, ''today_1024.jpg'', 100)), ?s2)"
    by code_simp
  have a1: "get_image_info world_small ''a href'' anchor_only apod empty_store =
      (Inr (Some (?u, ''today.jpg'', 100)), ?s1)"
    by code_simp
  have a2: "get_image_info world_small ''img src'' anchor_only apod ?s1 = (Inr None, ?s1)"
    by code_simp
  have lt: "(100::int) < 500" by simp
  have nf: "\<not> isfile empty_store (path_join ''/tmp/backgrounds'' (splitext_root ''today.jpg'' @ ''.png''))"
    by code_simp
  note t = small_image_retries_once [OF e1 lt nf]
  note ta = small_image_retries_once [OF a1 lt nf]
  have r1: "get_image world_small (image_page ''today'') ''/tmp/backgrounds'' apod empty_store =
      (Inl SystemExit, ?s2)"
    using t [THEN conjunct2, THEN conjunct1, rule_format, of ?u2 "''today_1024.jpg''" 100 ?s2]
      e2 lt by blast
  have r2: "get_image world_small anchor_only ''/tmp/backgrounds'' apod empty_store =
      (Inr None, ?s1)"
    using ta [THEN conjunct1, rule_format, OF a2] by blast
  show ?thesis using e1 lt nf r1 r2 by (intro conjI)
qed

text \<open>
  Claim C2 as stated fails: when the fallback is below the threshold as well, the day
  does not end with a failure that a caller could absorb; \<^verbatim>\<open>get_image\<close> ends the
  process with \<^verbatim>\<open>exit()\<close>.
\<close>

theorem small_fallback_exits:
  "get_image world_small (image_page ''c'') ''/tmp/backgrounds'' apod empty_store =
     (Inl SystemExit,
      empty_store\<lparr>requests := [Open ''http://apod.nasa.gov/apod/image/2301/c.jpg'',
                                 Open ''http://apod.nasa.gov/apod/image/2301/c_1024.jpg'']\<rparr>)"
  by code_simp

text \<open>
  Claim C3, as amended. When \<^verbatim>\<open>get_image\<close> has returned a path, the file is there, and
  a second acquisition of the same document returns the same path, leaves the files as
  they are and downloads nothing: its only network access is the request that
  \<^verbatim>\<open>get_image_info\<close> makes for the size. The first acquisition made exactly one download
  if the file was not there before, and none if it was.
\<close>

theorem second_acquisition_downloads_nothing:
  assumes "get_image w doc dp base s = (Inr (Some p), s1)"
  shows "isfile s1 p \<and>
         length (downloads s1) = length (downloads s) + (if isfile s p then 0 else 1) \<and>
         (\<exists>url. get_image w doc dp base s1 =
                  (Inr (Some p), s1\<lparr>requests := requests s1 @ [Open url]\<rparr>))"
proof -
  obtain url fname n sa where a: "get_image_info w ''a href'' doc base s = (Inr (Some (url, fname, n)), sa)"
    using assms
    by (auto simp: get_image_def split: prod.splits sum.splits option.splits)
  have sa: "sa = s\<lparr>requests := requests s @ [Open url]\<rparr>"
    and again: "get_image_info w ''a href'' doc base s1 =
           (Inr (Some (url, fname, n)), s1\<lparr>requests := requests s1 @ [Open url]\<rparr>)"
    using get_image_info_deterministic [OF a] by simp_all
  define save_to where "save_to = path_join dp (splitext_root fname @ ''.png'')"
  have p: "p = save_to"
    using assms a
    by (auto simp: get_image_def save_to_def Let_def split: prod.splits sum.splits option.splits if_splits)
  have first: "isfile s1 save_to \<and>
      length (downloads s1) = length (downloads s) + (if isfile s save_to then 0 else 1)"
  proof (cases "isfile s save_to")
    case True
    then have "s1 = sa" using assms a sa
      by (simp add: get_image_def save_to_def)
    then show ?thesis using True sa by (simp add: downloads_def)
  next
    case False
    then have nf: "\<not> isfile sa save_to" using sa by simp
    show ?thesis
    proof (cases "n < 500")
      case small: True
      obtain url2 fname2 n2 sb where b: "get_image_info w ''img src'' doc base sa = (Inr (Some (url2, fname2, n2)), sb)"
        and big: "\<not> n2 < 500"
        using assms a nf small
        by (auto simp: get_image_def save_to_def Let_def split: prod.splits sum.splits option.splits if_splits)
      have sb: "sb = sa\<lparr>requests := requests sa @ [Open url2]\<rparr>"
        using get_image_info_deterministic [OF b] by simp
      obtain u where r: "urlretrieve w url2 save_to sb = (Inr u, s1)"
        using assms a b nf small big
        by (auto simp: get_image_def save_to_def Let_def split: prod.splits sum.splits)
      show ?thesis
        using urlretrieve_ok [OF r] False sa sb by (simp add: downloads_def)
    next
      case large: False
      obtain u where r: "urlretrieve w url save_to sa = (Inr u, s1)"
        using assms a nf large
        by (auto simp: get_image_def save_to_def Let_def split: prod.splits sum.splits)
      show ?thesis
        using urlretrieve_ok [OF r] False sa by (simp add: downloads_def)
    qed
  qed
  have "get_image w doc dp base s1 = (Inr (Some save_to), s1\<lparr>requests := requests s1 @ [Open url]\<rparr>)"
    using again first by (simp add: get_image_def save_to_def)
  then show ?thesis using first p by blast
qed


theorem second_acquisition_downloads_nothing_witness:
  "get_image world_ok (image_page ''today'') ''/tmp/backgrounds'' apod empty_store =
     (Inr (Some ''/tmp/backgrounds/today.png''),
      \<lparr>files = [(''/tmp/backgrounds/today.png'', Picture 4000 3000)],
       requests = [Open ''http://apod.nasa.gov/apod/image/2301/today.jpg'',
                   Retrieve ''http://apod.nasa.gov/apod/image/2301/today.jpg''
                     ''/tmp/backgrounds/today.png''],
       wallpaper = None\<rparr>) \<and>
   length (downloads
      \<lparr>files = [(''/tmp/backgrounds/today.png'', Picture 4000 3000)],
       requests = [Open ''http://apod.nasa.gov/apod/image/2301/today.jpg'',
                   Retrieve ''http://apod.nasa.gov/apod/image/2301/today.jpg''
                     ''/tmp/backgrounds/today.png''],
       wallpaper = None\<rparr>) =
     length (downloads empty_store) +
       (if isfile empty_store ''/tmp/backgrounds/today.png'' then 0 else 1) \<and>
   (\<exists>url. get_image world_ok (image_page ''today'') ''/tmp/backgrounds'' apod
      \<lparr>files = [(''/tmp/backgrounds/today.png'', Picture 4000 3000)],
       requests = [Open ''http://apod.nasa.gov/apod/image/2301/today.jpg'',
                   Retrieve ''http://apod.nasa.gov/apod/image/2301/today.jpg''
                     ''/tmp/backgrounds/today.png''],
       wallpaper = None\<rparr> =
     (Inr (Some ''/tmp/backgrounds/today.png''),
      \<lparr>files = [(''/tmp/backgrounds/today.png'', Picture 4000 3000)],
       requests = [Open ''http://apod.nasa.gov/apod/image/2301/today.jpg'',
                   Retrieve ''http://apod.nasa.gov/apod/image/2301/today.jpg''
                     ''/tmp/backgrounds/today.png''],
       wallpaper = None\<rparr>
      \<lparr>requests := requests
         \<lparr>files = [(''/tmp/backgrounds/today.png'', Picture 4000 3000)],
          requests = [Open ''http://apod.nasa.gov/apod/image/2301/today.jpg'',
                      Retrieve ''http://apod.nasa.gov/apod/image/2301/today.jpg''
                        ''/tmp/backgrounds/today.png''],
          wallpaper = None\<rparr> @ [Open url]\<rparr>))"
proof -
  have e: "get_image world_ok (image_page ''today'') ''/tmp/backgrounds'' apod empty_store =
     (Inr (Some ''/tmp/backgrounds/today.png''),
      \<lparr>files = [(''/tmp/backgrounds/today.png'', Picture 4000 3000)],
       requests = [Open ''http://apod.nasa.gov/apod/image/2301/today.jpg'',
                   Retrieve ''http://apod.nasa.gov/apod/image/2301/today.jpg''
                     ''/tmp/backgrounds/today.png''],
       wallpaper = None\<rparr>)"
    by code_simp
  note t = second_acquisition_downloads_nothing [OF e]
  show ?thesis
    using e t [THEN conjunct2, THEN conjunct1] t [THEN conjunct2, THEN conjunct2]
    by (intro conjI)
qed

text \<open>
  Claim C3 as stated fails: with the file in place, \<^verbatim>\<open>get_image\<close> still accesses the
  network once, to open the remote image for its size.
\<close>

theorem cached_image_is_still_opened:
  "isfile (store_of [''today.png'']) ''/tmp/backgrounds/today.png'' \<and>
   get_image world_ok (image_page ''today'') ''/tmp/backgrounds'' apod (store_of [''today.png'']) =
     (Inr (Some ''/tmp/backgrounds/today.png''),
      \<lparr>files = [(''/tmp/backgrounds/today.png'', Picture 1024 768)],
       requests = [Open ''http://apod.nasa.gov/apod/image/2301/today.jpg''],
       wallpaper = None\<rparr>)"
  by code_simp

lemma image_at_unfold:
  assumes "lead = open_tag element" "img = ''image''"
  shows "image_at element s =
     (if map lower (take (length lead) s) = map lower lead \<and>
         map lower (take 5 (drop (length lead) s)) = img
      then (case dropWhile (\<lambda>c. c \<noteq> dq \<and> c \<noteq> nl) (drop 5 (drop (length lead) s)) of
              [] \<Rightarrow> None
            | c # rest \<Rightarrow>
                if c = dq
                then Some (take 5 (drop (length lead) s) @
                           takeWhile (\<lambda>c. c \<noteq> dq \<and> c \<noteq> nl) (drop 5 (drop (length lead) s)))
                else None)
      else None)"
  unfolding assms by (simp only: image_at_def Let_def)

lemma pattern_match_unfold:
  assumes "lead = open_tag element" "img = ''image''"
  shows "pattern_match element m g \<longleftrightarrow>
     map lower (take (length lead) m) = map lower lead \<and> drop (length lead) m = g @ [dq] \<and>
     map lower (take 5 g) = img \<and> nl \<notin> set (drop 5 g)"
  unfolding assms by (simp only: pattern_match_def)

lemma image_at_Some:
  assumes "image_at element s = Some g"
  shows "\<exists>m post. s = m @ post \<and> pattern_match element m g \<and> dq \<notin> set (drop 5 g)"
proof -
  define lead where "lead = open_tag element"
  define img where "img = ''image''"
  define r where "r = drop (length lead) s"
  let ?P = "\<lambda>c. c \<noteq> dq \<and> c \<noteq> nl"
  note u = image_at_unfold [OF lead_def img_def, of s, folded r_def]
  from assms obtain c rest where
    t: "map lower (take (length lead) s) = map lower lead"
    and i: "map lower (take 5 r) = img"
    and d: "dropWhile ?P (drop 5 r) = c # rest"
    and c: "c = dq"
    and g: "g = take 5 r @ takeWhile ?P (drop 5 r)"
    unfolding u by (auto split: if_splits list.splits)
  have "length img = 5" by (simp add: img_def)
  then have l5: "length (take 5 r) = 5"
    using i by (metis length_map)
  have ln: "length (take (length lead) s) = length lead"
    using t by (metis length_map)
  have "drop 5 r = takeWhile ?P (drop 5 r) @ dq # rest"
    using d c by (metis takeWhile_dropWhile_id)
  then have "r = g @ dq # rest"
    using g by (metis append_take_drop_id append.assoc)
  then have s: "s = (take (length lead) s @ g @ [dq]) @ rest"
    unfolding r_def by (metis append_take_drop_id append.assoc append_Cons append_Nil)
  have tg: "take 5 g = take 5 r" using g l5 by simp
  have dg: "drop 5 g = takeWhile ?P (drop 5 r)" using g l5 by simp
  have nodq: "dq \<notin> set (drop 5 g)" and nonl: "nl \<notin> set (drop 5 g)"
    unfolding dg by (auto dest: set_takeWhileD)
  have "pattern_match element (take (length lead) s @ g @ [dq]) g"
    unfolding pattern_match_unfold [OF lead_def img_def]
    using t i tg nonl ln by simp
  then show ?thesis using s nodq by blast
qed

lemma dropWhile_to_quote:
  "nl \<notin> set xs \<Longrightarrow> \<exists>r. dropWhile (\<lambda>c. c \<noteq> dq \<and> c \<noteq> nl) (xs @ dq # post) = dq # r"
  by (induction xs) auto

lemma image_at_None:
  assumes "image_at element (m @ post) = None"
  shows "\<not> pattern_match element m g"
proof
  assume pm: "pattern_match element m g"
  define lead where "lead = open_tag element"
  define img where "img = ''image''"
  let ?P = "\<lambda>c. c \<noteq> dq \<and> c \<noteq> nl"
  note u = image_at_unfold [OF lead_def img_def, of "m @ post"]
  from pm have t: "map lower (take (length lead) m) = map lower lead"
    and dm: "drop (length lead) m = g @ [dq]"
    and i: "map lower (take 5 g) = img"
    and nonl: "nl \<notin> set (drop 5 g)"
    unfolding pattern_match_unfold [OF lead_def img_def] by simp_all
  have ln: "length (take (length lead) m) = length lead" using t by (metis length_map)
  then have le: "length lead \<le> length m" by simp
  have "length img = 5" by (simp add: img_def)
  then have "length (take 5 g) = 5" using i by (metis length_map)
  then have l5: "5 \<le> length g" by simp
  have t': "take (length lead) (m @ post) = take (length lead) m" using le by simp
  have r: "drop (length lead) (m @ post) = g @ dq # post" using le dm by simp
  have t5: "take 5 (g @ dq # post) = take 5 g" using l5 by simp
  have d5: "drop 5 (g @ dq # post) = drop 5 g @ dq # post" using l5 by simp
  obtain q where q: "dropWhile ?P (drop 5 g @ dq # post) = dq # q"
    using dropWhile_to_quote [OF nonl] by blast
  have "image_at element (m @ post) \<noteq> None"
    unfolding u t' r t5 d5 q using t i by simp
  with assms show False by simp
qed

lemma search_image_Some:
  "search_image element doc = Some g \<Longrightarrow>
     \<exists>pre rest. doc = pre @ rest \<and> image_at element rest = Some g \<and>
       (\<forall>i < length pre. image_at element (drop i doc) = None)"
proof (induction doc)
  case Nil
  then show ?case by simp
next
  case (Cons c cs)
  show ?case
  proof (cases "image_at element (c # cs)")
    case (Some h)
    then have "h = g" using Cons.prems by simp
    then have "c # cs = [] @ (c # cs) \<and> image_at element (c # cs) = Some g \<and>
       (\<forall>i < length ([]::string). image_at element (drop i (c # cs)) = None)"
      using Some by simp
    then show ?thesis by blast
  next
    case None
    then have "search_image element cs = Some g" using Cons.prems by simp
    then obtain pre rest where p: "cs = pre @ rest" "image_at element rest = Some g"
      "\<forall>i < length pre. image_at element (drop i cs) = None"
      using Cons.IH by blast
    have "\<forall>i < length (c # pre). image_at element (drop i (c # cs)) = None"
    proof (intro allI impI)
      fix i assume "i < length (c # pre)"
      then show "image_at element (drop i (c # cs)) = None"
        using None p(3) by (cases i) auto
    qed
    moreover have "c # cs = (c # pre) @ rest" using p(1) by simp
    ultimately show ?thesis using p(2) by blast
  qed
qed


lemma no_match_iff:
  "search_image element doc = None \<longleftrightarrow>
     (\<forall>pre m g post. doc = pre @ m @ post \<longrightarrow> \<not> pattern_match element m g)"
proof
  assume n: "search_image element doc = None"
  show "\<forall>pre m g post. doc = pre @ m @ post \<longrightarrow> \<not> pattern_match element m g"
  proof (intro allI impI)
    fix pre m g post
    assume d: "doc = pre @ m @ post"
    have "image_at element (drop (length pre) doc) = None"
      using n by (simp add: search_image_None_iff)
    then have "image_at element (m @ post) = None" using d by simp
    then show "\<not> pattern_match element m g" by (rule image_at_None)
  qed
next
  assume a: "\<forall>pre m g post. doc = pre @ m @ post \<longrightarrow> \<not> pattern_match element m g"
  have "image_at element (drop i doc) = None" for i
  proof (cases "image_at element (drop i doc)")
    case None
    then show ?thesis .
  next
    case (Some g)
    then obtain m post where "drop i doc = m @ post" "pattern_match element m g"
      using image_at_Some by blast
    then have "doc = take i doc @ m @ post \<and> pattern_match element m g"
      by (metis append_take_drop_id)
    then show ?thesis using a by blast
  qed
  then show "search_image element doc = None"
    by (simp add: search_image_None_iff)
qed

lemma leftmost_match:
  assumes "search_image element doc = Some g"
  shows "\<exists>pre m post. doc = pre @ m @ post \<and> pattern_match element m g \<and>
           dq \<notin> set (drop 5 g) \<and>
           (\<forall>pre' m' g' post'. doc = pre' @ m' @ post' \<and> pattern_match element m' g' \<longrightarrow>
              length pre \<le> length pre')"
proof -
  obtain pre rest where p: "doc = pre @ rest" "image_at element rest = Some g"
    "\<forall>i < length pre. image_at element (drop i doc) = None"
    using search_image_Some [OF assms] by blast
  obtain m post where m: "rest = m @ post" "pattern_match element m g" "dq \<notin> set (drop 5 g)"
    using image_at_Some [OF p(2)] by blast
  have "length pre \<le> length pre'"
    if "doc = pre' @ m' @ post'" "pattern_match element m' g'" for pre' m' g' post'
  proof (rule ccontr)
    assume "\<not> length pre \<le> length pre'"
    then have "image_at element (drop (length pre') doc) = None" using p(3) by simp
    then have "image_at element (m' @ post') = None" using that(1) by simp
    then show False using image_at_None that(2) by blast
  qed
  then show ?thesis using p(1) m by blast
qed

text \<open>
  Claim C9. A document in which the strategy's pattern matches nowhere gives the
  explicit outcome "no image" from \<^verbatim>\<open>get_image_info\<close>, with no exception and no network
  access, and \<^verbatim>\<open>get_image\<close> then returns \<^verbatim>\<open>None\<close> and leaves the files as they are.
\<close>

theorem no_match_gives_no_image:
  assumes "\<forall>pre m g post. doc = pre @ m @ post \<longrightarrow> \<not> pattern_match element m g"
  shows "get_image_info w element doc base s = (Inr None, s) \<and>
         (element = ''a href'' \<longrightarrow> get_image w doc dp base s = (Inr None, s))"
proof -
  have "search_image element doc = None"
    using assms by (simp only: no_match_iff)
  then show ?thesis
    by (auto simp: get_image_info_def get_image_def)
qed

theorem no_match_gives_no_image_witness:
  "\<not> (\<exists>pre m g post. video_page = pre @ m @ post \<and> pattern_match ''a href'' m g) \<and>
   get_image_info world_ok ''a href'' video_page apod empty_store = (Inr None, empty_store) \<and>
   get_image world_ok video_page ''/tmp/backgrounds'' apod empty_store = (Inr None, empty_store)"
proof -
  have "search_image ''a href'' video_page = None" by code_simp
  then have h: "\<forall>pre m g post. video_page = pre @ m @ post \<longrightarrow> \<not> pattern_match ''a href'' m g"
    by (simp only: no_match_iff)
  have r: "get_image_info world_ok ''a href'' video_page apod empty_store = (Inr None, empty_store) \<and>
         (''a href'' = ''a href'' \<longrightarrow>
            get_image world_ok video_page ''/tmp/backgrounds'' apod empty_store = (Inr None, empty_store))"
    by (rule no_match_gives_no_image [OF h])
  then have "get_image_info world_ok ''a href'' video_page apod empty_store = (Inr None, empty_store)"
    and "get_image world_ok video_page ''/tmp/backgrounds'' apod empty_store = (Inr None, empty_store)"
    by simp_all
  moreover have "\<not> (\<exists>pre m g post. video_page = pre @ m @ post \<and> pattern_match ''a href'' m g)"
    using h by blast
  ultimately show ?thesis by (intro conjI)
qed

text \<open>
  Claim C8, as amended. \<^verbatim>\<open>get_image_info\<close> reports no image exactly when the pattern
  matches nowhere in the document. Otherwise the match is the leftmost one, its
  reference (group 1) starts with the word \<^verbatim>\<open>image\<close> and ends before the first double
  quote after it, and the URL returned is the reference itself when it contains
  \<^verbatim>\<open>http\<close> and the base URL followed by the reference when it does not.
\<close>

theorem get_image_info_first_match:
  "(get_image_info w element doc base s = (Inr None, s) \<longleftrightarrow>
      (\<forall>pre m g post. doc = pre @ m @ post \<longrightarrow> \<not> pattern_match element m g)) \<and>
   (\<forall>url fname size s'.
      get_image_info w element doc base s = (Inr (Some (url, fname, size)), s') \<longrightarrow>
      (\<exists>pre m g post.
         doc = pre @ m @ post \<and> pattern_match element m g \<and> dq \<notin> set (drop 5 g) \<and>
         (\<forall>pre' m' g' post'. doc = pre' @ m' @ post' \<and> pattern_match element m' g' \<longrightarrow>
            length pre \<le> length pre') \<and>
         url = (if contains ''http'' g then g else base @ g) \<and>
         fname = basename url \<and>
         content_length w url = Inr size \<and>
         s' = s\<lparr>requests := requests s @ [Open url]\<rparr>))"
proof (intro conjI allI impI)
  have "get_image_info w element doc base s = (Inr None, s) \<longleftrightarrow> search_image element doc = None"
    by (auto simp: get_image_info_def Let_def split: option.splits sum.splits)
  then show "get_image_info w element doc base s = (Inr None, s) \<longleftrightarrow>
      (\<forall>pre m g post. doc = pre @ m @ post \<longrightarrow> \<not> pattern_match element m g)"
    by (simp only: no_match_iff)
next
  fix url fname size s'
  assume a: "get_image_info w element doc base s = (Inr (Some (url, fname, size)), s')"
  then obtain g where g: "search_image element doc = Some g"
    and u: "url = (if contains ''http'' g then g else base @ g)"
    and r: "fname = basename url" "content_length w url = Inr size"
      "s' = s\<lparr>requests := requests s @ [Open url]\<rparr>"
    by (auto simp: get_image_info_def Let_def split: option.splits sum.splits)
  from leftmost_match [OF g] u r
  show "\<exists>pre m g post.
         doc = pre @ m @ post \<and> pattern_match element m g \<and> dq \<notin> set (drop 5 g) \<and>
         (\<forall>pre' m' g' post'. doc = pre' @ m' @ post' \<and> pattern_match element m' g' \<longrightarrow>
            length pre \<le> length pre') \<and>
         url = (if contains ''http'' g then g else base @ g) \<and>
         fname = basename url \<and>
         content_length w url = Inr size \<and>
         s' = s\<lparr>requests := requests s @ [Open url]\<rparr>"
    by blast
qed

theorem get_image_info_first_match_witness:
  "get_image_info world_ok ''a href'' (image_page ''today'') apod empty_store =
     (Inr (Some (''http://apod.nasa.gov/apod/image/2301/today.jpg'', ''today.jpg'', 250000)),
      empty_store\<lparr>requests := [Open ''http://apod.nasa.gov/apod/image/2301/today.jpg'']\<rparr>) \<and>
   (\<exists>pre m g post.
      image_page ''today'' = pre @ m @ post \<and> pattern_match ''a href'' m g \<and>
      ''http://apod.nasa.gov/apod/image/2301/today.jpg'' =
        (if contains ''http'' g then g else apod @ g))"
proof -
  have e: "get_image_info world_ok ''a href'' (image_page ''today'') apod empty_store =
     (Inr (Some (''http://apod.nasa.gov/apod/image/2301/today.jpg'', ''today.jpg'', 250000)),
      empty_store\<lparr>requests := [Open ''http://apod.nasa.gov/apod/image/2301/today.jpg'']\<rparr>)"
    by code_simp
  have "\<exists>pre m g post.
      image_page ''today'' = pre @ m @ post \<and> pattern_match ''a href'' m g \<and>
      dq \<notin> set (drop 5 g) \<and>
      (\<forall>pre' m' g' post'. image_page ''today'' = pre' @ m' @ post' \<and>
          pattern_match ''a href'' m' g' \<longrightarrow> length pre \<le> length pre') \<and>
      ''http://apod.nasa.gov/apod/image/2301/today.jpg'' =
        (if contains ''http'' g then g else apod @ g) \<and>
      ''today.jpg'' = basename ''http://apod.nasa.gov/apod/image/2301/today.jpg'' \<and>
      content_length world_ok ''http://apod.nasa.gov/apod/image/2301/today.jpg'' = Inr 250000 \<and>
      empty_store\<lparr>requests := [Open ''http://apod.nasa.gov/apod/image/2301/today.jpg'']\<rparr> =
        empty_store\<lparr>requests := requests empty_store @
          [Open ''http://apod.nasa.gov/apod/image/2301/today.jpg'']\<rparr>"
    using get_image_info_first_match
      [of world_ok "''a href''" "image_page ''today''" apod empty_store,
       THEN conjunct2, rule_format, OF e] .
  then obtain pre m g post where
    "image_page ''today'' = pre @ m @ post" "pattern_match ''a href'' m g"
    "''http://apod.nasa.gov/apod/image/2301/today.jpg'' =
        (if contains ''http'' g then g else apod @ g)"
    by (elim exE conjE)
  then have "\<exists>pre m g post.
      image_page ''today'' = pre @ m @ post \<and> pattern_match ''a href'' m g \<and>
      ''http://apod.nasa.gov/apod/image/2301/today.jpg'' =
        (if contains ''http'' g then g else apod @ g)"
    by (intro exI conjI)
  then show ?thesis using e by (intro conjI)
qed

text \<open>
  Claim C8 as stated fails: a reference that contains \<^verbatim>\<open>image\<close> without starting with it
  (here an absolute URL) is not located, and a relative reference that contains \<^verbatim>\<open>http\<close>
  is returned without the base URL.
\<close>

theorem reference_must_start_with_image:
  "contains ''image'' ''http://apod.nasa.gov/apod/image/2301/x.jpg'' \<and>
   get_image_info world_ok ''a href''
       (''<a href='' @ [dq] @ ''http://apod.nasa.gov/apod/image/2301/x.jpg'' @ [dq] @ ''>'')
       apod empty_store = (Inr None, empty_store) \<and>
   get_image_info world_ok ''a href''
       (''<a href='' @ [dq] @ ''image/http_logo.jpg'' @ [dq] @ ''>'') apod empty_store =
     (Inr (Some (''image/http_logo.jpg'', ''http_logo.jpg'', 250000)),
      empty_store\<lparr>requests := [Open ''image/http_logo.jpg'']\<rparr>)"
  by code_simp

section \<open>Properties of the playlist\<close>

lemma shuffle_loop_mset:
  "i < length xs \<Longrightarrow> mset (shuffle_loop draw i xs) = mset xs"
proof (induction i arbitrary: xs)
  case 0
  show ?case by simp
next
  case (Suc i)
  let ?j = "draw (Suc i) mod (Suc i + 1)"
  have j: "?j < length xs" using Suc.prems
  proof -
    have "?j < Suc i + 1" by (rule mod_less_divisor) simp
    then show ?thesis using Suc.prems by linarith
  qed
  have "mset (xs[Suc i := xs ! ?j, ?j := xs ! Suc i]) = mset xs"
    using j Suc.prems by (simp add: mset_swap)
  moreover have "i < length (xs[Suc i := xs ! ?j, ?j := xs ! Suc i])"
    using Suc.prems by simp
  ultimately show ?case
    using Suc.IH [of "xs[Suc i := xs ! ?j, ?j := xs ! Suc i]"] by (simp add: Let_def)
qed

lemma shuffle_mset: "mset (shuffle draw xs) = mset xs"
proof (cases xs)
  case Nil
  then show ?thesis by (simp add: shuffle_def)
next
  case (Cons a as)
  then show ?thesis by (simp add: shuffle_def shuffle_loop_mset)
qed

lemma playlist_entries_concat:
  assumes "\<And>x. x \<in> set xs \<Longrightarrow> entry_of (st x) (tr x) = Some (g x)"
  shows "playlist_entries (concat (map (\<lambda>x. [st x, tr x]) xs)) = map g xs"
  using assms by (induction xs) auto

lemma entry_of_slide:
  "entry_of (slide D ims i ! 0) (slide D ims i ! 1) =
     Some (SlideEntry (ims ! i) (str_int D) ''5'' (ims ! i)
            (if i + 1 = length ims then ims ! 0 else ims ! (i + 1)))"
  by (simp add: slide_def entry_of_def)

lemma slide_two: "slide D ims i = [slide D ims i ! 0, slide D ims i ! 1]"
  by (simp add: slide_def)

lemma playlist_background:
  "playlist (background D ims) =
     map (\<lambda>i. SlideEntry (ims ! i) (str_int D) ''5'' (ims ! i) (ims ! ((i + 1) mod length ims)))
       [0..<length ims]"
proof -
  have "playlist (background D ims) =
      playlist_entries (concat (map (\<lambda>i. [slide D ims i ! 0, slide D ims i ! 1]) [0..<length ims]))"
    using slide_two by (simp add: playlist_def background_def)
  also have "\<dots> = map (\<lambda>i. SlideEntry (ims ! i) (str_int D) ''5'' (ims ! i)
            (if i + 1 = length ims then ims ! 0 else ims ! (i + 1))) [0..<length ims]"
    by (rule playlist_entries_concat) (rule entry_of_slide)
  also have "\<dots> = map (\<lambda>i. SlideEntry (ims ! i) (str_int D) ''5'' (ims ! i) (ims ! ((i + 1) mod length ims)))
       [0..<length ims]"
    by (rule map_cong) (auto simp: mod_Suc)
  finally show ?thesis .
qed


lemma next_image_cycle:
  assumes "distinct ims" "i < length ims"
  shows "next_image (playlist (background D ims)) (ims ! i) = Some (ims ! ((i + 1) mod length ims))"
proof -
  let ?ps = "map (\<lambda>i. (ims ! i, ims ! ((i + 1) mod length ims))) [0..<length ims]"
  have ps: "map (\<lambda>e. (se_from e, se_to e)) (playlist (background D ims)) = ?ps"
    by (simp add: playlist_background comp_def)
  have "map fst ?ps = map (\<lambda>i. ims ! i) [0..<length ims]" by (simp add: comp_def)
  also have "\<dots> = ims" by (rule map_nth)
  finally have d: "distinct (map fst ?ps)" using assms(1) by simp
  have "(ims ! i, ims ! ((i + 1) mod length ims)) \<in> set ?ps"
    using assms(2) by auto
  then have "map_of ?ps (ims ! i) = Some (ims ! ((i + 1) mod length ims))"
    using d by (simp only: map_of_eq_Some_iff)
  then show ?thesis by (simp only: next_image_def ps)
qed

lemma follow_cycle:
  assumes "distinct ims" "i < length ims"
  shows "follow (playlist (background D ims)) (ims ! i) k = Some (ims ! ((i + k) mod length ims))"
proof (induction k)
  case 0
  show ?case using assms(2) by simp
next
  case (Suc k)
  have "0 < length ims" using assms(2) by linarith
  then have lt: "(i + k) mod length ims < length ims" by simp
  have "follow (playlist (background D ims)) (ims ! i) (Suc k) =
      next_image (playlist (background D ims)) (ims ! ((i + k) mod length ims))"
    using Suc.IH by simp
  also have "\<dots> = Some (ims ! (((i + k) mod length ims + 1) mod length ims))"
    using assms(1) lt by (rule next_image_cycle)
  also have "((i + k) mod length ims + 1) mod length ims = (i + Suc k) mod length ims"
    by (simp add: mod_Suc_eq)
  finally show ?case .
qed

lemma rotate1_mset: "mset (rotate1 xs) = mset xs"
  by (cases xs) simp_all

lemma rotate_mset: "mset (rotate i xs) = mset xs"
  by (induction i) (simp_all add: rotate1_mset)

lemma chain_is_rotation:
  assumes "i < length ims"
  shows "map (\<lambda>k. ims ! ((i + k) mod length ims)) [0..<length ims] = rotate i ims"
  by (rule nth_equalityI) (simp_all add: nth_rotate)

lemma scroll_playlist_one_cycle:
  assumes "distinct images"
  shows "length (scroll_playlist draw D images) = length images \<and>
         mset (map se_file (scroll_playlist draw D images)) = mset images \<and>
         (\<forall>e \<in> set (scroll_playlist draw D images).
            se_duration e = str_int D \<and> se_transition e = ''5'' \<and> se_from e = se_file e) \<and>
         (\<forall>f \<in> set images.
            follow (scroll_playlist draw D images) f (length images) = Some f \<and>
            mset (map (follow (scroll_playlist draw D images) f) [0..<length images]) =
              mset (map Some images)) \<and>
         (images \<noteq> [] \<longrightarrow>
            se_to (last (scroll_playlist draw D images)) =
            se_file (hd (scroll_playlist draw D images)))"
proof -
  define ims where "ims = shuffle draw images"
  define pl where "pl = playlist (background D ims)"
  have pl_eq: "scroll_playlist draw D images = pl"
    by (simp add: scroll_playlist_def pl_def ims_def)
  have ms: "mset ims = mset images" by (simp add: ims_def shuffle_mset)
  then have len: "length ims = length images" by (rule mset_eq_length)
  have dist: "distinct ims" using ms assms by (metis mset_eq_imp_distinct_iff)
  have sets: "set ims = set images" using ms by (rule mset_eq_setD)
  have pl_map: "pl = map (\<lambda>i. SlideEntry (ims ! i) (str_int D) ''5'' (ims ! i)
      (ims ! ((i + 1) mod length ims))) [0..<length ims]"
    by (simp add: pl_def playlist_background)
  have c1: "length pl = length images" by (simp add: pl_map len)
  have "map se_file pl = map (\<lambda>i. ims ! i) [0..<length ims]"
    by (simp add: pl_map comp_def)
  then have "map se_file pl = ims" by (simp add: map_nth)
  then have c2: "mset (map se_file pl) = mset images" using ms by simp
  have c3: "\<forall>e \<in> set pl. se_duration e = str_int D \<and> se_transition e = ''5'' \<and> se_from e = se_file e"
    by (auto simp: pl_map)
  have c4: "\<forall>f \<in> set images. follow pl f (length images) = Some f \<and>
      mset (map (follow pl f) [0..<length images]) = mset (map Some images)"
  proof
    fix f assume "f \<in> set images"
    then have "f \<in> set ims" using sets by simp
    then obtain i where i: "i < length ims" and f: "f = ims ! i"
      by (auto simp: in_set_conv_nth)
    have fk: "follow pl f k = Some (ims ! ((i + k) mod length ims))" for k
      unfolding pl_def f using dist i by (rule follow_cycle)
    have "follow pl f (length ims) = Some (ims ! ((i + length ims) mod length ims))"
      by (rule fk)
    also have "(i + length ims) mod length ims = i" using i by simp
    finally have return: "follow pl f (length images) = Some f"
      by (simp only: len f [symmetric])
    have "map (follow pl f) [0..<length images] =
        map Some (map (\<lambda>k. ims ! ((i + k) mod length ims)) [0..<length ims])"
      by (simp add: fk len comp_def)
    also have "\<dots> = map Some (rotate i ims)"
      using i by (simp only: chain_is_rotation)
    finally have "mset (map (follow pl f) [0..<length images]) = mset (map Some (rotate i ims))"
      by simp
    also have "\<dots> = mset (map Some images)"
      using ms by (simp add: rotate_mset)
    finally show "follow pl f (length images) = Some f \<and>
      mset (map (follow pl f) [0..<length images]) = mset (map Some images)"
      using return by simp
  qed
  have c5: "images \<noteq> [] \<longrightarrow> se_to (last pl) = se_file (hd pl)"
  proof
    assume "images \<noteq> []"
    then have n: "0 < length ims" using len by simp
    have l: "last pl = pl ! (length ims - 1)"
      using n by (simp add: last_conv_nth pl_map)
    have h: "hd pl = pl ! 0" using n by (simp add: hd_conv_nth pl_map)
    show "se_to (last pl) = se_file (hd pl)"
      unfolding l h using n by (simp add: pl_map)
  qed
  show ?thesis unfolding pl_eq using c1 c2 c3 c4 c5 by blast
qed

lemma builder_is_reached:
  assumes "\<not> int (length (glob_png dp s)) < seed"
  shows "create_desktop_background_scoll w filename True D dp seed base X Y s =
           Some (Inr (Some (dp @ ''/nasa_apod_desktop_backgrounds.xml'')),
                 s\<lparr>files := AList.update (dp @ ''/nasa_apod_desktop_backgrounds.xml'')
                     (Markup (background D (shuffle (randbelow w) (glob_png dp s)))) (files s)\<rparr>)"
  using assms
  by (simp add: create_desktop_background_scoll_def seed_images_def Let_def)

text \<open>
  Claim C5. With the slideshow on and at least \<^verbatim>\<open>SEED_IMAGES\<close> image files present (so
  that the builder is reached: with fewer, the seed walk runs first and never hands a
  list over, see C10), \<^verbatim>\<open>create_desktop_background_scoll\<close> returns the path of the
  playlist file and writes it, and nothing else. For N distinct \<^verbatim>\<open>.png\<close> files in the
  directory the playlist written has N entries, one for each file, each with the slide
  duration and the transition duration 5, and the chain of \<^verbatim>\<open>to\<close> references is one
  cycle: from any image it comes back to that image after N steps, having visited each
  image once on the way, and the last entry leads to the first.
\<close>

theorem written_playlist_is_one_cycle:
  fixes w :: world and s :: state and dp :: string and D :: int
  defines "images \<equiv> glob_png dp s"
    and "path \<equiv> dp @ ''/nasa_apod_desktop_backgrounds.xml''"
    and "tree \<equiv> background D (shuffle (randbelow w) (glob_png dp s))"
  assumes "\<not> int (length (glob_png dp s)) < seed"
    and "distinct (glob_png dp s)"
  shows "create_desktop_background_scoll w filename True D dp seed base X Y s =
           Some (Inr (Some path), s\<lparr>files := AList.update path (Markup tree) (files s)\<rparr>) \<and>
         map_of (AList.update path (Markup tree) (files s)) path = Some (Markup tree) \<and>
         length (playlist tree) = length images \<and>
         mset (map se_file (playlist tree)) = mset images \<and>
         (\<forall>e \<in> set (playlist tree).
            se_duration e = str_int D \<and> se_transition e = ''5'' \<and> se_from e = se_file e) \<and>
         (\<forall>f \<in> set images.
            follow (playlist tree) f (length images) = Some f \<and>
            mset (map (follow (playlist tree) f) [0..<length images]) = mset (map Some images)) \<and>
         (images \<noteq> [] \<longrightarrow> se_to (last (playlist tree)) = se_file (hd (playlist tree)))"
proof -
  have p: "playlist tree = scroll_playlist (randbelow w) D images"
    by (simp add: scroll_playlist_def tree_def images_def)
  have c: "create_desktop_background_scoll w filename True D dp seed base X Y s =
           Some (Inr (Some path), s\<lparr>files := AList.update path (Markup tree) (files s)\<rparr>)"
    unfolding path_def tree_def using assms(4) by (rule builder_is_reached)
  have m: "map_of (AList.update path (Markup tree) (files s)) path = Some (Markup tree)"
    by (simp add: update_conv')
  have d: "distinct images" using assms(5) by (simp add: images_def)
  note q = scroll_playlist_one_cycle [OF d, of "randbelow w" D, folded p]
  show ?thesis using c m q by (intro conjI) blast+
qed

theorem written_playlist_is_one_cycle_witness:
  "\<not> int (length (glob_png ''/tmp/backgrounds'' (store_of [''a.png'', ''b.png'', ''c.png'']))) < 3 \<and>
   distinct (glob_png ''/tmp/backgrounds'' (store_of [''a.png'', ''b.png'', ''c.png''])) \<and>
   create_desktop_background_scoll world_ok None True 1200 ''/tmp/backgrounds'' 3 apod 1024 768
       (store_of [''a.png'', ''b.png'', ''c.png'']) =
     Some (Inr (Some (''/tmp/backgrounds'' @ ''/nasa_apod_desktop_backgrounds.xml'')),
           store_of [''a.png'', ''b.png'', ''c.png'']
             \<lparr>files := AList.update (''/tmp/backgrounds'' @ ''/nasa_apod_desktop_backgrounds.xml'')
                (Markup (background 1200 (shuffle (randbelow world_ok)
                   (glob_png ''/tmp/backgrounds'' (store_of [''a.png'', ''b.png'', ''c.png''])))))
                (files (store_of [''a.png'', ''b.png'', ''c.png'']))\<rparr>) \<and>
   length (playlist (background 1200 (shuffle (randbelow world_ok)
       (glob_png ''/tmp/backgrounds'' (store_of [''a.png'', ''b.png'', ''c.png'']))))) =
     length (glob_png ''/tmp/backgrounds'' (store_of [''a.png'', ''b.png'', ''c.png''])) \<and>
   glob_png ''/tmp/backgrounds'' (store_of [''a.png'', ''b.png'', ''c.png'']) =
     [''/tmp/backgrounds/a.png'', ''/tmp/backgrounds/b.png'', ''/tmp/backgrounds/c.png''] \<and>
   playlist (background 1200 (shuffle (randbelow world_ok)
       (glob_png ''/tmp/backgrounds'' (store_of [''a.png'', ''b.png'', ''c.png''])))) =
     [SlideEntry ''/tmp/backgrounds/b.png'' ''1200'' ''5'' ''/tmp/backgrounds/b.png''
        ''/tmp/backgrounds/c.png'',
      SlideEntry ''/tmp/backgrounds/c.png'' ''1200'' ''5'' ''/tmp/backgrounds/c.png''
        ''/tmp/backgrounds/a.png'',
      SlideEntry ''/tmp/backgrounds/a.png'' ''1200'' ''5'' ''/tmp/backgrounds/a.png''
        ''/tmp/backgrounds/b.png'']"
proof -
  have n: "\<not> int (length (glob_png ''/tmp/backgrounds'' (store_of [''a.png'', ''b.png'', ''c.png'']))) < 3"
    by code_simp
  have d: "distinct (glob_png ''/tmp/backgrounds'' (store_of [''a.png'', ''b.png'', ''c.png'']))"
    by code_simp
  have g: "glob_png ''/tmp/backgrounds'' (store_of [''a.png'', ''b.png'', ''c.png'']) =
     [''/tmp/backgrounds/a.png'', ''/tmp/backgrounds/b.png'', ''/tmp/backgrounds/c.png'']"
    by code_simp
  have v: "playlist (background 1200 (shuffle (randbelow world_ok)
       (glob_png ''/tmp/backgrounds'' (store_of [''a.png'', ''b.png'', ''c.png''])))) =
     [SlideEntry ''/tmp/backgrounds/b.png'' ''1200'' ''5'' ''/tmp/backgrounds/b.png''
        ''/tmp/backgrounds/c.png'',
      SlideEntry ''/tmp/backgrounds/c.png'' ''1200'' ''5'' ''/tmp/backgrounds/c.png''
        ''/tmp/backgrounds/a.png'',
      SlideEntry ''/tmp/backgrounds/a.png'' ''1200'' ''5'' ''/tmp/backgrounds/a.png''
        ''/tmp/backgrounds/b.png'']"
    by code_simp
  note t = written_playlist_is_one_cycle [OF n d, of world_ok None 1200 apod 1024 768]
  show ?thesis
    using n d t [THEN conjunct1] t [THEN conjunct2, THEN conjunct2, THEN conjunct1] g v
    by (intro conjI)
qed

end
